theory Spec2Isabelle
  imports Main "HOL-Library.AList"
begin

section \<open>Values, promises and the console\<close>

text \<open>
  The JavaScript values that flow through the scrobble service: the
  \<^verbatim>\<open>ServiceCallResult\<close> constants are strings, a thrown \<^verbatim>\<open>Error\<close> carries its
  name and message, a song info object returned by a scrobbler is opaque, and the
  batch calls pass arrays of song indices.
\<close>

datatype jsval =
    JsUndefined
  | JsNull
  | JsString string
  | JsError string string
  | JsObject string
  | JsIndices "nat list"

definition RESULT_OK :: jsval where
  "RESULT_OK = JsString ''ok''"

definition RESULT_IGNORE :: jsval where
  "RESULT_IGNORE = JsString ''ignored''"

definition ERROR_AUTH :: jsval where
  "ERROR_AUTH = JsString ''error-auth''"

definition ERROR_OTHER :: jsval where
  "ERROR_OTHER = JsString ''error-other''"

text \<open>Decimal printing of an array length inside a template literal.\<close>

function string_of_nat :: "nat \<Rightarrow> string" where
  "string_of_nat n =
     (if n < 10 then [''0123456789'' ! n]
      else string_of_nat (n div 10) @ [''0123456789'' ! (n mod 10)])"
  by pat_completeness auto
termination
  by (relation "measure id") auto

declare string_of_nat.simps [simp del]

text \<open>
  What a template literal prints for a value: a string as it is, an error as
  \<^verbatim>\<open>name: message\<close> (\<^verbatim>\<open>Error.prototype.toString\<close>), an array as its elements
  joined by commas.
\<close>

fun join_indices :: "nat list \<Rightarrow> string" where
  "join_indices [] = []"
| "join_indices [n] = string_of_nat n"
| "join_indices (n # m # ns) = string_of_nat n @ '','' @ join_indices (m # ns)"

fun to_string :: "jsval \<Rightarrow> string" where
  "to_string JsUndefined = ''undefined''"
| "to_string JsNull = ''null''"
| "to_string (JsString s) = s"
| "to_string (JsError name msg) =
     (if name = [] then msg else if msg = [] then name else name @ '': '' @ msg)"
| "to_string (JsObject _) = ''[object Object]''"
| "to_string (JsIndices ns) = join_indices ns"

text \<open>A settled promise is fulfilled with a value or rejected with a reason.\<close>

datatype ('a, 'e) promise = Fulfilled 'a | Rejected 'e

text \<open>
  \<^verbatim>\<open>p.catch(handler)\<close>: a fulfilled promise passes through, a rejected one runs the
  handler, which may change the state and may itself fulfil or reject.
\<close>

definition promise_catch ::
  "('a, 'e) promise \<Rightarrow> ('e \<Rightarrow> 's \<Rightarrow> ('a, 'f) promise \<times> 's) \<Rightarrow> 's \<Rightarrow> ('a, 'f) promise \<times> 's" where
  "promise_catch p handler st =
     (case p of Fulfilled v \<Rightarrow> (Fulfilled v, st) | Rejected r \<Rightarrow> handler r st)"

text \<open>
  The tasks of one fan-out settle one after another on the single thread, in an order
  the service does not control. \<open>settle\<close> runs the tasks in the order the schedule
  names them (a task settles once; an index outside the array names nothing) and
  returns the settlements in the order they happened, each with the state it left,
  and the state after the last one. What a task does to the state is taken to happen
  at the moment it settles.
\<close>

fun settle ::
  "nat list \<Rightarrow> nat list \<Rightarrow> ('s \<Rightarrow> ('a, 'e) promise \<times> 's) list \<Rightarrow> 's
     \<Rightarrow> (nat \<times> ('a, 'e) promise \<times> 's) list \<times> 's" where
  "settle seen [] tasks st = ([], st)"
| "settle seen (i # sched) tasks st =
     (if i < length tasks \<and> i \<notin> set seen then
        (case (tasks ! i) st of
           (r, st') \<Rightarrow>
             (case settle (i # seen) sched tasks st' of
                (evs, st'') \<Rightarrow> ((i, r, st') # evs, st'')))
      else settle seen sched tasks st)"

fun first_rejection :: "(nat \<times> ('a, 'e) promise \<times> 's) list \<Rightarrow> ('e \<times> 's) option" where
  "first_rejection [] = None"
| "first_rejection ((i, Rejected e, st) # evs) = Some (e, st)"
| "first_rejection ((i, Fulfilled v, st) # evs) = first_rejection evs"

fun fulfilled_value :: "(('a, 'e) promise \<times> 's) option \<Rightarrow> 'a option" where
  "fulfilled_value (Some (Fulfilled v, st)) = Some v"
| "fulfilled_value _ = None"

text \<open>
  \<^verbatim>\<open>Promise.all(promises)\<close>: rejected with the reason of the first promise that
  rejects; fulfilled with the values in the order of the array once every promise is
  fulfilled; \<open>None\<close> when it stays pending for ever, because a promise of the array
  never settles and none rejects. The state returned is the one left when every
  scheduled task has settled (the tasks still pending when \<^verbatim>\<open>Promise.all\<close> rejects
  go on running).
\<close>

definition Promise_all ::
  "nat list \<Rightarrow> ('s \<Rightarrow> ('a, 'e) promise \<times> 's) list \<Rightarrow> 's
     \<Rightarrow> ('a list, 'e) promise option \<times> 's" where
  "Promise_all sched tasks st =
     (case settle [] sched tasks st of
        (evs, st') \<Rightarrow>
          ((case first_rejection evs of
              Some (e, _) \<Rightarrow> Some (Rejected e)
            | None \<Rightarrow>
                map_option Fulfilled
                  (those (map (\<lambda>i. fulfilled_value (map_of evs i)) [0..<length tasks]))),
           st'))"

text \<open>The state at the moment \<^verbatim>\<open>Promise.all\<close> rejects, when it does.\<close>

definition rejection_state ::
  "nat list \<Rightarrow> ('s \<Rightarrow> ('a, 'e) promise \<times> 's) list \<Rightarrow> 's \<Rightarrow> 's option" where
  "rejection_state sched tasks st =
     map_option snd (first_rejection (fst (settle [] sched tasks st)))"

text \<open>Every promise of an array of \<open>n\<close> settles under the schedule.\<close>

definition settles_all :: "nat list \<Rightarrow> nat \<Rightarrow> bool" where
  "settles_all sched n = list_all (\<lambda>i. i \<in> set sched) [0..<n]"

datatype console_level = ConsoleLog | ConsoleWarn | ConsoleError

section \<open>Scrobblers\<close>

text \<open>
  A scrobbler object: its identity as an object (what \<^verbatim>\<open>===\<close> and
  \<^verbatim>\<open>indexOf\<close> compare) and what its synchronous getters return.
\<close>

record scrobbler =
  identity :: nat
  getId :: string
  getLabel :: string
  getMaxTrackCountToScrobble :: nat
  canLoveSong :: bool
  canLoadSongInfo :: bool

text \<open>
  The asynchronous methods of the scrobblers talk to remote services; the classes that
  implement them are not part of these sources, so what each call settles to is a
  parameter of the model. An API call resolves or rejects with a value, which the
  service compares with the \<^verbatim>\<open>ServiceCallResult\<close> constants;
  \<^verbatim>\<open>isReadyForGrantAccess\<close> resolves with a boolean; \<^verbatim>\<open>scrobbleBatchWithLimit\<close>
  rejects with the array of the chunk's failed song indices, which the handler in
  \<^verbatim>\<open>BaseScrobbler.scrobbleBatch\<close> iterates.
\<close>

record 'song backend =
  getSession :: "scrobbler \<Rightarrow> (jsval, jsval) promise"
  isReadyForGrantAccess :: "scrobbler \<Rightarrow> (bool, jsval) promise"
  backend_sendNowPlaying :: "scrobbler \<Rightarrow> 'song \<Rightarrow> (jsval, jsval) promise"
  backend_scrobble :: "scrobbler \<Rightarrow> 'song \<Rightarrow> (jsval, jsval) promise"
  backend_toggleLove :: "scrobbler \<Rightarrow> 'song \<Rightarrow> bool \<Rightarrow> (jsval, jsval) promise"
  backend_getSongInfo :: "scrobbler \<Rightarrow> 'song \<Rightarrow> (jsval, jsval) promise"
  scrobbleBatchWithLimit :: "scrobbler \<Rightarrow> 'song list \<Rightarrow> (jsval, nat list) promise"

section \<open>The scrobble service: binding\<close>

text \<open>
  The module's state: the array \<^verbatim>\<open>boundScrobblers\<close>, the lines written to the
  console, and the calls made to scrobblers' asynchronous methods (scrobbler and
  method name), in the order they were made.
\<close>

record service =
  boundScrobblers :: "scrobbler list"
  console :: "(console_level \<times> string) list"
  requests :: "(scrobbler \<times> string) list"

definition initial_service :: service where
  "initial_service = \<lparr>boundScrobblers = [], console = [], requests = []\<rparr>"

definition console_write :: "console_level \<Rightarrow> string \<Rightarrow> service \<Rightarrow> service" where
  "console_write level msg st = st\<lparr>console := console st @ [(level, msg)]\<rparr>"

definition request :: "scrobbler \<Rightarrow> string \<Rightarrow> service \<Rightarrow> service" where
  "request s method st = st\<lparr>requests := requests st @ [(s, method)]\<rparr>"

definition isScrobblerInArray :: "scrobbler \<Rightarrow> scrobbler list \<Rightarrow> bool" where
  "isScrobblerInArray scrobbler array =
     list_ex (\<lambda>s. getLabel s = getLabel scrobbler) array"

text \<open>\<^verbatim>\<open>Array.prototype.indexOf\<close>: the first index holding the object, or -1.\<close>

fun indexOf :: "'a list \<Rightarrow> 'a \<Rightarrow> int" where
  "indexOf [] x = -1"
| "indexOf (y # ys) x =
     (if y = x then 0 else (let i = indexOf ys x in if i < 0 then -1 else i + 1))"

text \<open>
  \<^verbatim>\<open>array.splice(start, 1)\<close>: a negative start counts from the end of the array
  (and not below 0), a start past the end removes nothing.
\<close>

definition splice1 :: "int \<Rightarrow> 'a list \<Rightarrow> 'a list" where
  "splice1 start xs =
     (let len = int (length xs);
          actualStart = (if start < 0 then max (len + start) 0 else min start len);
          k = nat actualStart
      in take k xs @ drop (Suc k) xs)"

definition bindScrobbler :: "scrobbler \<Rightarrow> service \<Rightarrow> service" where
  "bindScrobbler scrobbler st =
     (if \<not> isScrobblerInArray scrobbler (boundScrobblers st) then
        console_write ConsoleLog (''Bind '' @ getLabel scrobbler @ '' scrobbler'')
          (st\<lparr>boundScrobblers := boundScrobblers st @ [scrobbler]\<rparr>)
      else st)"

definition unbindScrobbler :: "scrobbler \<Rightarrow> service \<Rightarrow> service" where
  "unbindScrobbler scrobbler st =
     (if isScrobblerInArray scrobbler (boundScrobblers st) then
        (let index = indexOf (boundScrobblers st) scrobbler in
         console_write ConsoleLog (''Unbind '' @ getLabel scrobbler @ '' scrobbler'')
           (st\<lparr>boundScrobblers := splice1 index (boundScrobblers st)\<rparr>))
      else
        console_write ConsoleError (getLabel scrobbler @ '' is not bound'') st)"



definition getRegisteredScrobblers :: "scrobbler list \<Rightarrow> scrobbler list" where
  "getRegisteredScrobblers registeredScrobblers = registeredScrobblers"

fun getScrobblerById :: "scrobbler list \<Rightarrow> string \<Rightarrow> scrobbler option" where
  "getScrobblerById [] scrobblerId = None"
| "getScrobblerById (scrobbler # rest) scrobblerId =
     (if getId scrobbler = scrobblerId then Some scrobbler
      else getScrobblerById rest scrobblerId)"

section \<open>The scrobble service: dispatch\<close>

text \<open>
  \<open>processErrorResult\<close> is the handler of a rejected scrobbler call: it throws on a
  result that is neither error constant, asks a scrobbler that reported an
  authorization error whether it is waiting for access to be granted, and unbinds it
  when it is not. Each dispatch reads the array of scrobblers once, calls every one of
  them, and joins the handled promises with \<^verbatim>\<open>Promise.all\<close>.
\<close>

definition processErrorResult ::
  "'song backend \<Rightarrow> scrobbler \<Rightarrow> jsval \<Rightarrow> service \<Rightarrow> (jsval, jsval) promise \<times> service" where
  "processErrorResult api scrobbler result st =
     (let isOtherError = (result = ERROR_OTHER);
          isAuthError = (result = ERROR_AUTH)
      in if \<not> (isOtherError \<or> isAuthError) then
           (Rejected (JsError ''Error'' (''Invalid result: '' @ to_string result)), st)
         else if isAuthError then
           (case isReadyForGrantAccess api scrobbler of
              Rejected e \<Rightarrow> (Rejected e, request scrobbler ''isReadyForGrantAccess'' st)
            | Fulfilled isReady \<Rightarrow>
                (Fulfilled result,
                 if \<not> isReady then
                   unbindScrobbler scrobbler (request scrobbler ''isReadyForGrantAccess'' st)
                 else request scrobbler ''isReadyForGrantAccess'' st))
         else (Fulfilled result, st))"

definition getSongInfo ::
  "'song backend \<Rightarrow> scrobbler list \<Rightarrow> nat list \<Rightarrow> 'song \<Rightarrow> service
     \<Rightarrow> (jsval list, jsval) promise option \<times> service" where
  "getSongInfo api registeredScrobblers sched songInfo st =
     (let scrobblers = filter canLoadSongInfo registeredScrobblers;
          st1 = console_write ConsoleLog
                  (''Send \"get info\" request: '' @ string_of_nat (length scrobblers)) st;
          st2 = fold (\<lambda>scrobbler. request scrobbler ''getSongInfo'') scrobblers st1
      in Promise_all sched
           (map (\<lambda>scrobbler.
                   promise_catch (backend_getSongInfo api scrobbler songInfo)
                     (\<lambda>_ s. (Fulfilled JsNull,
                        console_write ConsoleWarn
                          (''Unable to get song info from '' @ getLabel scrobbler) s)))
              scrobblers)
           st2)"

definition sendNowPlaying ::
  "'song backend \<Rightarrow> nat list \<Rightarrow> 'song \<Rightarrow> service
     \<Rightarrow> (jsval list, jsval) promise option \<times> service" where
  "sendNowPlaying api sched songInfo st =
     (let scrobblers = boundScrobblers st;
          st1 = console_write ConsoleLog
                  (''Send \"now playing\" request: '' @ string_of_nat (length scrobblers)) st;
          st2 = fold (\<lambda>scrobbler. request scrobbler ''sendNowPlaying'') scrobblers st1
      in Promise_all sched
           (map (\<lambda>scrobbler.
                   promise_catch (backend_sendNowPlaying api scrobbler songInfo)
                     (processErrorResult api scrobbler))
              scrobblers)
           st2)"

definition scrobble ::
  "'song backend \<Rightarrow> nat list \<Rightarrow> 'song \<Rightarrow> service
     \<Rightarrow> (jsval list, jsval) promise option \<times> service" where
  "scrobble api sched songInfo st =
     (let scrobblers = boundScrobblers st;
          st1 = console_write ConsoleLog
                  (''Send \"scrobble\" request: '' @ string_of_nat (length scrobblers)) st;
          st2 = fold (\<lambda>scrobbler. request scrobbler ''scrobble'') scrobblers st1
      in Promise_all sched
           (map (\<lambda>scrobbler.
                   promise_catch (backend_scrobble api scrobbler songInfo)
                     (processErrorResult api scrobbler))
              scrobblers)
           st2)"

definition toggleLove ::
  "'song backend \<Rightarrow> scrobbler list \<Rightarrow> nat list \<Rightarrow> 'song \<Rightarrow> bool \<Rightarrow> service
     \<Rightarrow> (jsval list, jsval) promise option \<times> service" where
  "toggleLove api registeredScrobblers sched songInfo flag st =
     (let scrobblers = filter canLoveSong registeredScrobblers;
          requestName = (if flag then ''love'' else ''unlove'');
          st1 = console_write ConsoleLog
                  (''Send \"'' @ requestName @ ''\" request: ''
                     @ string_of_nat (length scrobblers)) st;
          st2 = fold (\<lambda>scrobbler. request scrobbler ''toggleLove'') scrobblers st1
      in Promise_all sched
           (map (\<lambda>scrobbler.
                   promise_catch (backend_toggleLove api scrobbler songInfo flag)
                     (processErrorResult api scrobbler))
              scrobblers)
           st2)"

section \<open>Batch scrobbling\<close>

text \<open>
  Modelled from the spec: \<^verbatim>\<open>splitArrayToChunks\<close> of \<^verbatim>\<open>util/util\<close>, which is not
  among the sources. The spec: "Given an ordered batch of N songs and a backend's
  maxChunkSize M, partition into ceil(N/M) contiguous chunks preserving order; the
  last chunk may be shorter than M." It gives a chunk size that is an integer above
  0 and says nothing of a chunk size of 0, for which the model has no result.
\<close>

function chunks_of :: "'a list \<Rightarrow> nat \<Rightarrow> 'a list list" where
  "chunks_of xs m =
     (if xs = [] \<or> m = 0 then [] else take m xs # chunks_of (drop m xs) m)"
  by pat_completeness auto
termination
  by (relation "measure (\<lambda>(xs, m). length xs)") auto

declare chunks_of.simps [simp del]

definition splitArrayToChunks :: "'a list \<Rightarrow> nat \<Rightarrow> 'a list list option" where
  "splitArrayToChunks arr chunkSize =
     (if chunkSize = 0 then None else Some (chunks_of arr chunkSize))"

text \<open>
  \<^verbatim>\<open>BaseScrobbler.scrobbleBatch\<close>: one request per chunk, all issued at once; the
  handler of a rejected chunk pushes its song indices, shifted by the chunk's offset,
  onto \<^verbatim>\<open>results\<close> when that chunk settles. \<open>None\<close>: the call never returns,
  because a chunk request never settles, or the chunk size is 0.
\<close>

definition chunk_request ::
  "'song backend \<Rightarrow> scrobbler \<Rightarrow> nat \<Rightarrow> nat \<times> 'song list \<Rightarrow> nat list
     \<Rightarrow> (jsval, jsval) promise \<times> nat list" where
  "chunk_request api scrobbler maxChunkSize = (\<lambda>(chunkIndex, chunk).
     promise_catch (scrobbleBatchWithLimit api scrobbler chunk)
       (\<lambda>songIndices results.
          (Fulfilled JsUndefined,
           results @ map (\<lambda>songIndex.
                            (let songIndexOffset = chunkIndex * maxChunkSize
                             in songIndex + songIndexOffset))
                       songIndices)))"

definition BaseScrobbler_scrobbleBatch ::
  "'song backend \<Rightarrow> nat list \<Rightarrow> scrobbler \<Rightarrow> 'song list \<Rightarrow> (nat list, jsval) promise option" where
  "BaseScrobbler_scrobbleBatch api sched scrobbler songInfoArray =
     (let maxChunkSize = getMaxTrackCountToScrobble scrobbler in
      case splitArrayToChunks songInfoArray maxChunkSize of
        None \<Rightarrow> None
      | Some chunks \<Rightarrow>
          (case Promise_all sched
                  (map (chunk_request api scrobbler maxChunkSize) (enumerate 0 chunks)) [] of
             (None, _) \<Rightarrow> None
           | (Some (Rejected e), _) \<Rightarrow> Some (Rejected e)
           | (Some (Fulfilled _), results) \<Rightarrow> Some (Fulfilled results)))"

text \<open>
  \<^verbatim>\<open>ScrobbleBatchError\<close> (required by the service as \<^verbatim>\<open>ScrobbleBatchResult\<close>): an
  error whose \<^verbatim>\<open>errorData\<close> maps scrobbler IDs to song indices.
\<close>

record ScrobbleBatchError =
  message :: string
  errorData :: "(string \<times> jsval) list"

definition new_ScrobbleBatchError :: "string \<Rightarrow> ScrobbleBatchError" where
  "new_ScrobbleBatchError msg = \<lparr>message = msg, errorData = []\<rparr>"

definition setFailedSongIndices ::
  "string \<Rightarrow> jsval \<Rightarrow> ScrobbleBatchError \<Rightarrow> ScrobbleBatchError" where
  "setFailedSongIndices scrobblerId songIndices err =
     err\<lparr>errorData := AList.update scrobblerId songIndices (errorData err)\<rparr>"

definition getFailedSongIndices :: "string \<Rightarrow> ScrobbleBatchError \<Rightarrow> jsval" where
  "getFailedSongIndices scrobblerId err =
     (case map_of (errorData err) scrobblerId of None \<Rightarrow> JsUndefined | Some v \<Rightarrow> v)"

text \<open>
  The service's \<^verbatim>\<open>scrobbleBatch\<close>. Each bound scrobbler's batch promise gets a
  handler that stores the rejection under the scrobbler's ID in the object
  \<^verbatim>\<open>erroredScrobbles\<close> and returns nothing. A scrobbler whose batch call never
  returns never settles, whatever the schedule says, so its task is never run. The
  handler of the joined
  promise rethrows when \<^verbatim>\<open>erroredScrobbles\<close> has no key; otherwise it goes on to
  \<^verbatim>\<open>for (const scrobblerId of erroredScrobbles)\<close>, and iterating a plain object
  throws a \<^verbatim>\<open>TypeError\<close>, so the statements after it are never reached.
\<close>

definition batch_promises ::
  "'song backend \<Rightarrow> (scrobbler \<Rightarrow> nat list) \<Rightarrow> 'song list \<Rightarrow> scrobbler list
     \<Rightarrow> (nat list, jsval) promise option list" where
  "batch_promises api chunk_sched songInfoArray scrobblers =
     map (\<lambda>scrobbler.
            BaseScrobbler_scrobbleBatch api (chunk_sched scrobbler) scrobbler songInfoArray)
       scrobblers"

definition batch_task ::
  "scrobbler \<Rightarrow> (nat list, jsval) promise option \<Rightarrow> (string \<times> jsval) list
     \<Rightarrow> (jsval, jsval) promise \<times> (string \<times> jsval) list" where
  "batch_task scrobbler p =
     (case p of
        Some (Fulfilled indices) \<Rightarrow> (\<lambda>erroredScrobbles. (Fulfilled (JsIndices indices), erroredScrobbles))
      | Some (Rejected trackIndices) \<Rightarrow>
          (\<lambda>erroredScrobbles.
             (Fulfilled JsUndefined,
              AList.update (getId scrobbler) trackIndices erroredScrobbles))
      | None \<Rightarrow> (\<lambda>erroredScrobbles. (Fulfilled JsUndefined, erroredScrobbles)))"

definition scrobbleBatch_join ::
  "'song backend \<Rightarrow> nat list \<Rightarrow> (scrobbler \<Rightarrow> nat list) \<Rightarrow> 'song list \<Rightarrow> scrobbler list
     \<Rightarrow> (jsval list, jsval) promise option \<times> (string \<times> jsval) list" where
  "scrobbleBatch_join api sched chunk_sched songInfoArray scrobblers =
     (let ps = batch_promises api chunk_sched songInfoArray scrobblers;
          returning = filter (\<lambda>i. i < length ps \<and> ps ! i \<noteq> None) sched;
          tasks = map (\<lambda>(scrobbler, p). batch_task scrobbler p) (zip scrobblers ps)
      in case Promise_all returning tasks [] of
           (Some (Rejected err), final) \<Rightarrow>
             (case rejection_state returning tasks [] of
                None \<Rightarrow> (Some (Rejected err), final)
              | Some erroredScrobbles \<Rightarrow>
                  (if length (map fst erroredScrobbles) = 0 then (Some (Rejected err), final)
                   else (Some (Rejected (JsError ''TypeError''
                                  ''erroredScrobbles is not iterable'')), final)))
         | (r, final) \<Rightarrow> (r, final))"

definition scrobbleBatch ::
  "'song backend \<Rightarrow> nat list \<Rightarrow> (scrobbler \<Rightarrow> nat list) \<Rightarrow> 'song list \<Rightarrow> service
     \<Rightarrow> (jsval list, jsval) promise option \<times> service" where
  "scrobbleBatch api sched chunk_sched songInfoArray st =
     (let scrobblers = boundScrobblers st;
          st1 = console_write ConsoleLog
                  (''Send batch \"scrobble\" request: '' @ string_of_nat (length scrobblers)) st;
          st2 = fold (\<lambda>scrobbler. request scrobbler ''scrobbleBatch'') scrobblers st1
      in (fst (scrobbleBatch_join api sched chunk_sched songInfoArray scrobblers), st2))"

section \<open>Sequences of bindings, and the scrobblers used in examples\<close>

text \<open>
  The service registers one instance each of the Last.fm, Libre.fm and ListenBrainz
  scrobblers. \<open>lastFmMirror\<close> is a further object with an ID of its own and the
  label of \<open>lastFm\<close>.
\<close>

datatype binding_op = Bind scrobbler | Unbind scrobbler

fun apply_binding_op :: "binding_op \<Rightarrow> service \<Rightarrow> service" where
  "apply_binding_op (Bind s) st = bindScrobbler s st"
| "apply_binding_op (Unbind s) st = unbindScrobbler s st"

definition run_binding_ops :: "binding_op list \<Rightarrow> service \<Rightarrow> service" where
  "run_binding_ops ops st = fold apply_binding_op ops st"

definition lastFm :: scrobbler where
  "lastFm = \<lparr>identity = 0, getId = ''lastfm'', getLabel = ''Last.fm'',
     getMaxTrackCountToScrobble = 50, canLoveSong = True, canLoadSongInfo = True\<rparr>"

definition libreFm :: scrobbler where
  "libreFm = \<lparr>identity = 1, getId = ''librefm'', getLabel = ''Libre.fm'',
     getMaxTrackCountToScrobble = 50, canLoveSong = True, canLoadSongInfo = False\<rparr>"

definition listenBrainz :: scrobbler where
  "listenBrainz = \<lparr>identity = 2, getId = ''listenbrainz'', getLabel = ''ListenBrainz'',
     getMaxTrackCountToScrobble = 3, canLoveSong = False, canLoadSongInfo = False\<rparr>"

definition lastFmMirror :: scrobbler where
  "lastFmMirror = \<lparr>identity = 3, getId = ''lastfm-mirror'', getLabel = ''Last.fm'',
     getMaxTrackCountToScrobble = 50, canLoveSong = True, canLoadSongInfo = True\<rparr>"


text \<open>The scrobblers a method was called on, in the order of the calls.\<close>

definition calls :: "string \<Rightarrow> service \<Rightarrow> scrobbler list" where
  "calls method st = map fst (filter (\<lambda>(s, m). m = method) (requests st))"


definition exampleBackend :: "string backend" where
  "exampleBackend =
     \<lparr>getSession = (\<lambda>s. if getId s = ''lastfm''
         then Rejected (JsError ''Error'' ''no session'') else Fulfilled (JsObject ''session'')),
      isReadyForGrantAccess = (\<lambda>s. Fulfilled False),
      backend_sendNowPlaying = (\<lambda>s song.
         if getId s = ''lastfm'' then Rejected ERROR_AUTH
         else if getId s = ''librefm'' then Rejected ERROR_OTHER
         else Fulfilled RESULT_OK),
      backend_scrobble = (\<lambda>s song.
         if getId s = ''librefm'' then Rejected ERROR_AUTH
         else if getId s = ''listenbrainz'' \<and> song = ''offline''
           then Rejected (JsError ''TypeError'' ''Failed to fetch'')
         else Fulfilled RESULT_OK),
      backend_toggleLove = (\<lambda>s song flag. Fulfilled RESULT_OK),
      backend_getSongInfo = (\<lambda>s song.
         if getId s = ''lastfm'' then Rejected (JsError ''Error'' ''timeout'')
         else Fulfilled (JsObject song)),
      scrobbleBatchWithLimit = (\<lambda>s chunk.
         if getId s = ''listenbrainz'' \<and> take 1 chunk = [''s3''] then Rejected [1]
         else Fulfilled JsUndefined)\<rparr>"

text \<open>
  The indices a schedule really settles, in order: those that name a task and were
  not settled before.
\<close>

fun effective :: "nat list \<Rightarrow> nat list \<Rightarrow> nat \<Rightarrow> nat list" where
  "effective seen [] n = []"
| "effective seen (i # sched) n =
     (if i < n \<and> i \<notin> set seen then i # effective (i # seen) sched n
      else effective seen sched n)"

text \<open>
  A settled scrobbler call that \<open>processErrorResult\<close> turns into a value: a
  fulfilled one, one rejected with the other error, or one rejected with the
  authorization error when the scrobbler's \<^verbatim>\<open>isReadyForGrantAccess\<close> resolves. The
  value is the one the call was fulfilled or rejected with.
\<close>

definition handled :: "'song backend \<Rightarrow> scrobbler \<Rightarrow> (jsval, jsval) promise \<Rightarrow> bool" where
  "handled api s p =
     (case p of
        Fulfilled v \<Rightarrow> True
      | Rejected r \<Rightarrow>
          r = ERROR_OTHER \<or>
          (r = ERROR_AUTH \<and>
           (case isReadyForGrantAccess api s of Fulfilled b \<Rightarrow> True | Rejected e \<Rightarrow> False)))"

definition forwarded :: "(jsval, jsval) promise \<Rightarrow> jsval" where
  "forwarded p = (case p of Fulfilled v \<Rightarrow> v | Rejected r \<Rightarrow> r)"

text \<open>
  The global indices one chunk adds to the results of a batch: none when its request
  is fulfilled, its local indices shifted by the chunk's offset when it is rejected.
\<close>

definition chunk_failures :: "'song backend \<Rightarrow> scrobbler \<Rightarrow> nat \<Rightarrow> 'song list \<Rightarrow> nat list" where
  "chunk_failures api s k chunk =
     (case scrobbleBatchWithLimit api s chunk of
        Fulfilled v \<Rightarrow> []
      | Rejected songIndices \<Rightarrow>
          map (\<lambda>i. i + k * getMaxTrackCountToScrobble s) songIndices)"

text \<open>The seven songs of the batch used as an example.\<close>

definition sevenSongs :: "string list" where
  "sevenSongs = [''s0'', ''s1'', ''s2'', ''s3'', ''s4'', ''s5'', ''s6'']"

section \<open>Arrays\<close>

lemma isScrobblerInArray_iff:
  "isScrobblerInArray s xs \<longleftrightarrow> (\<exists>b\<in>set xs. getLabel b = getLabel s)"
  by (simp add: isScrobblerInArray_def list_ex_iff)

lemma indexOf_absent: "x \<notin> set xs \<Longrightarrow> indexOf xs x = -1"
  by (induction xs) (auto simp: Let_def)

lemma indexOf_nonneg: "x \<in> set xs \<Longrightarrow> 0 \<le> indexOf xs x"
  by (induction xs) (auto simp: Let_def)

lemma indexOf_ge: "- 1 \<le> indexOf xs x"
  by (induction xs) (auto simp: Let_def)

lemma splice1_Cons_0: "splice1 0 (x # xs) = xs"
  by (simp add: splice1_def)

lemma splice1_Cons_Suc: "0 \<le> i \<Longrightarrow> splice1 (i + 1) (x # xs) = x # splice1 i xs"
  by (simp add: splice1_def Let_def min_def nat_add_distrib)

lemma splice1_indexOf: "x \<in> set xs \<Longrightarrow> splice1 (indexOf xs x) xs = remove1 x xs"
proof (induction xs)
  case Nil
  then show ?case by simp
next
  case (Cons y ys)
  show ?case
  proof (cases "y = x")
    case True
    then show ?thesis by (simp add: splice1_Cons_0)
  next
    case False
    with Cons.prems have mem: "x \<in> set ys" by simp
    then have "0 \<le> indexOf ys x" by (rule indexOf_nonneg)
    with False mem Cons.IH show ?thesis
      by (simp add: Let_def splice1_Cons_Suc)
  qed
qed

lemma splice1_minus1: "splice1 (- 1) xs = butlast xs"
  by (cases xs rule: rev_cases) (simp_all add: splice1_def Let_def max_def)

lemma set_splice1: "set (splice1 i xs) \<subseteq> set xs"
  unfolding splice1_def Let_def
  by (auto dest: in_set_takeD in_set_dropD)

lemma distinct_take_drop_Suc:
  "distinct ys \<Longrightarrow> distinct (take k ys @ drop (Suc k) ys)"
proof (induction ys arbitrary: k)
  case Nil
  then show ?case by simp
next
  case (Cons y ys)
  show ?case
  proof (cases k)
    case 0
    with Cons.prems show ?thesis by simp
  next
    case (Suc j)
    with Cons show ?thesis
      by (auto dest: in_set_takeD in_set_dropD)
  qed
qed

lemma distinct_map_splice1:
  assumes "distinct (map f xs)"
  shows "distinct (map f (splice1 i xs))"
proof -
  obtain k where k: "splice1 i xs = take k xs @ drop (Suc k) xs"
    by (simp add: splice1_def Let_def)
  have "map f (splice1 i xs) = take k (map f xs) @ drop (Suc k) (map f xs)"
    by (simp add: k take_map drop_map)
  with assms show ?thesis
    by (simp only: distinct_take_drop_Suc)
qed

section \<open>The binding registry\<close>

lemma bound_console_write [simp]:
  "boundScrobblers (console_write l m st) = boundScrobblers st"
  by (simp add: console_write_def)

lemma bound_request [simp]: "boundScrobblers (request s m st) = boundScrobblers st"
  by (simp add: request_def)

lemma bound_bindScrobbler:
  "boundScrobblers (bindScrobbler s st) =
     (if \<exists>b\<in>set (boundScrobblers st). getLabel b = getLabel s then boundScrobblers st
      else boundScrobblers st @ [s])"
  by (simp add: bindScrobbler_def isScrobblerInArray_iff)

lemma bound_unbindScrobbler:
  "boundScrobblers (unbindScrobbler s st) =
     (if \<exists>b\<in>set (boundScrobblers st). getLabel b = getLabel s
      then splice1 (indexOf (boundScrobblers st) s) (boundScrobblers st)
      else boundScrobblers st)"
  by (simp add: unbindScrobbler_def isScrobblerInArray_iff Let_def)

lemma distinct_labels_bind:
  "distinct (map getLabel (boundScrobblers st)) \<Longrightarrow>
   distinct (map getLabel (boundScrobblers (bindScrobbler s st)))"
  by (auto simp: bound_bindScrobbler)

lemma distinct_labels_unbind:
  "distinct (map getLabel (boundScrobblers st)) \<Longrightarrow>
   distinct (map getLabel (boundScrobblers (unbindScrobbler s st)))"
  by (simp add: bound_unbindScrobbler distinct_map_splice1)

lemma distinct_labels_ops:
  "distinct (map getLabel (boundScrobblers st)) \<Longrightarrow>
   distinct (map getLabel (boundScrobblers (run_binding_ops ops st)))"
  unfolding run_binding_ops_def
proof (induction ops arbitrary: st)
  case Nil
  then show ?case by simp
next
  case (Cons op ops)
  then show ?case
    by (cases op) (simp_all add: distinct_labels_bind distinct_labels_unbind)
qed

text \<open>
  Claim C10. Membership of the bound array is decided by label, not by ID:
  \<open>bindScrobbler\<close> appends a scrobbler exactly when no bound scrobbler has its label,
  and \<open>unbindScrobbler\<close> takes its removing branch exactly when one has. So after any
  sequence of binds and unbinds from the module's initial state no two bound
  scrobblers share a label, and binding a scrobbler whose label a bound scrobbler with
  another ID already has leaves it unbound.
\<close>

theorem membership_by_label:
  "boundScrobblers (bindScrobbler s st) =
     (if \<exists>b\<in>set (boundScrobblers st). getLabel b = getLabel s then boundScrobblers st
      else boundScrobblers st @ [s])
   \<and> boundScrobblers (unbindScrobbler s st) =
     (if \<exists>b\<in>set (boundScrobblers st). getLabel b = getLabel s
      then splice1 (indexOf (boundScrobblers st) s) (boundScrobblers st)
      else boundScrobblers st)
   \<and> distinct (map getLabel (boundScrobblers (run_binding_ops ops initial_service)))
   \<and> (\<forall>b\<in>set (boundScrobblers (run_binding_ops ops initial_service)).
         getLabel b = getLabel s \<and> getId b \<noteq> getId s \<longrightarrow>
         s \<notin> set (boundScrobblers (bindScrobbler s (run_binding_ops ops initial_service))))"
proof -
  let ?st = "run_binding_ops ops initial_service"
  have d: "distinct (map getLabel (boundScrobblers ?st))"
    by (rule distinct_labels_ops) (simp add: initial_service_def)
  have "s \<notin> set (boundScrobblers (bindScrobbler s ?st))"
    if b: "b \<in> set (boundScrobblers ?st)" and l: "getLabel b = getLabel s"
      and i: "getId b \<noteq> getId s" for b
  proof -
    from i have "b \<noteq> s" by auto
    have "s \<notin> set (boundScrobblers ?st)"
    proof
      assume "s \<in> set (boundScrobblers ?st)"
      with d b l have "b = s" by (auto simp: distinct_map inj_on_def)
      with \<open>b \<noteq> s\<close> show False by simp
    qed
    with b l show ?thesis by (auto simp: bound_bindScrobbler)
  qed
  with d show ?thesis
    by (simp only: bound_bindScrobbler bound_unbindScrobbler) blast
qed

text \<open>
  An instance: binds and unbinds of the three registered scrobblers, and a bind of the
  object that shares the label of Last.fm.
\<close>

theorem membership_by_label_witness:
  "boundScrobblers (run_binding_ops [Bind lastFm, Bind libreFm, Unbind lastFm, Bind listenBrainz, Bind lastFm] initial_service)
     = [libreFm, listenBrainz, lastFm]
   \<and> boundScrobblers (bindScrobbler lastFmMirror
        (run_binding_ops [Bind lastFm, Bind libreFm] initial_service)) = [lastFm, libreFm]
   \<and> lastFmMirror \<notin> set (boundScrobblers (bindScrobbler lastFmMirror
        (run_binding_ops [Bind lastFm, Bind libreFm] initial_service)))"
  using membership_by_label [of lastFmMirror "run_binding_ops [Bind lastFm, Bind libreFm] initial_service" "[Bind lastFm, Bind libreFm]"]
  by (simp add: run_binding_ops_def initial_service_def bound_bindScrobbler bound_unbindScrobbler
      lastFm_def libreFm_def listenBrainz_def lastFmMirror_def splice1_def)

lemma console_unbind_absent:
  "\<not> isScrobblerInArray s (boundScrobblers st) \<Longrightarrow>
   unbindScrobbler s st = console_write ConsoleError (getLabel s @ '' is not bound'') st"
  by (simp add: unbindScrobbler_def)

lemma bound_unbind_member:
  "s \<in> set (boundScrobblers st) \<Longrightarrow>
   boundScrobblers (unbindScrobbler s st) = remove1 s (boundScrobblers st)"
  by (auto simp: bound_unbindScrobbler splice1_indexOf)

text \<open>
  Claim C7, as amended. Unbinding a scrobbler whose label no bound scrobbler has
  changes neither the bound array nor the requests and writes the "is not bound" error
  to the console; unbinding a scrobbler object that is in the bound array removes
  its first occurrence, and so removes it when the array holds no object twice.
\<close>

theorem unbind_absent_or_member:
  "(\<not> isScrobblerInArray s (boundScrobblers st) \<longrightarrow>
      boundScrobblers (unbindScrobbler s st) = boundScrobblers st
      \<and> console (unbindScrobbler s st)
          = console st @ [(ConsoleError, getLabel s @ '' is not bound'')]
      \<and> requests (unbindScrobbler s st) = requests st)
   \<and> (s \<in> set (boundScrobblers st) \<longrightarrow>
      boundScrobblers (unbindScrobbler s st) = remove1 s (boundScrobblers st)
      \<and> (distinct (boundScrobblers st) \<longrightarrow> s \<notin> set (boundScrobblers (unbindScrobbler s st))))"
  by (simp add: console_unbind_absent bound_unbind_member console_write_def)

text \<open>
  An instance: unbinding ListenBrainz, which is not bound, and Last.fm, which is.
\<close>

theorem unbind_absent_or_member_witness:
  "boundScrobblers (unbindScrobbler listenBrainz
      (run_binding_ops [Bind lastFm, Bind libreFm] initial_service)) = [lastFm, libreFm]
   \<and> console (unbindScrobbler listenBrainz initial_service)
       = [(ConsoleError, ''ListenBrainz is not bound'')]
   \<and> boundScrobblers (unbindScrobbler lastFm
      (run_binding_ops [Bind lastFm, Bind libreFm] initial_service)) = [libreFm]"
  using unbind_absent_or_member [of listenBrainz "run_binding_ops [Bind lastFm, Bind libreFm] initial_service"]
    unbind_absent_or_member [of listenBrainz initial_service]
    unbind_absent_or_member [of lastFm "run_binding_ops [Bind lastFm, Bind libreFm] initial_service"]
  by (simp add: run_binding_ops_def initial_service_def bound_bindScrobbler isScrobblerInArray_iff
      lastFm_def libreFm_def listenBrainz_def)

text \<open>
  Claim C7 as stated fails for a scrobbler that is not in the bound array but has the
  label of one that is: \<open>indexOf\<close> answers -1 and \<open>splice(-1, 1)\<close> removes the
  last bound scrobbler, here Libre.fm.
\<close>

theorem unbind_other_object_counterexample:
  "lastFmMirror \<notin> set (boundScrobblers (run_binding_ops [Bind lastFm, Bind libreFm] initial_service))
   \<and> getId lastFmMirror \<notin> getId ` set (boundScrobblers (run_binding_ops [Bind lastFm, Bind libreFm] initial_service))
   \<and> boundScrobblers (run_binding_ops [Bind lastFm, Bind libreFm] initial_service) = [lastFm, libreFm]
   \<and> boundScrobblers (unbindScrobbler lastFmMirror
        (run_binding_ops [Bind lastFm, Bind libreFm] initial_service)) = [lastFm]"
  by (simp add: run_binding_ops_def initial_service_def bound_bindScrobbler bound_unbindScrobbler
      lastFm_def libreFm_def lastFmMirror_def splice1_def)

lemma requests_console_write [simp]: "requests (console_write l m st) = requests st"
  by (simp add: console_write_def)

lemma requests_request [simp]: "requests (request s m st) = requests st @ [(s, m)]"
  by (simp add: request_def)

lemma requests_bindScrobbler [simp]: "requests (bindScrobbler s st) = requests st"
  by (simp add: bindScrobbler_def)

lemma requests_unbindScrobbler [simp]: "requests (unbindScrobbler s st) = requests st"
  by (simp add: unbindScrobbler_def Let_def)









section \<open>Error results\<close>

lemma remove1_labels_absent:
  "distinct (map getLabel xs) \<Longrightarrow> s \<in> set xs \<Longrightarrow> s \<notin> set (remove1 s xs)"
  by (simp add: distinct_map)

lemma unbind_not_member:
  assumes d: "distinct (map getLabel (boundScrobblers st))"
  shows "s \<notin> set (boundScrobblers (unbindScrobbler s st))"
proof (cases "s \<in> set (boundScrobblers st)")
  case True
  with d show ?thesis
    by (simp add: bound_unbind_member remove1_labels_absent)
next
  case False
  have "set (boundScrobblers (unbindScrobbler s st)) \<subseteq> set (boundScrobblers st)"
    using set_splice1 [of "indexOf (boundScrobblers st) s" "boundScrobblers st"]
    by (simp add: bound_unbindScrobbler)
  with False show ?thesis by blast
qed

lemma processErrorResult_other:
  "processErrorResult api s ERROR_OTHER st = (Fulfilled ERROR_OTHER, st)"
  by (simp add: processErrorResult_def ERROR_OTHER_def ERROR_AUTH_def)

lemma processErrorResult_auth:
  "processErrorResult api s ERROR_AUTH st =
     (case isReadyForGrantAccess api s of
        Rejected e \<Rightarrow> (Rejected e, request s ''isReadyForGrantAccess'' st)
      | Fulfilled isReady \<Rightarrow>
          (Fulfilled ERROR_AUTH,
           if isReady then request s ''isReadyForGrantAccess'' st
           else unbindScrobbler s (request s ''isReadyForGrantAccess'' st)))"
  by (simp add: processErrorResult_def ERROR_OTHER_def ERROR_AUTH_def split: promise.splits)

lemma processErrorResult_invalid:
  "result \<noteq> ERROR_AUTH \<Longrightarrow> result \<noteq> ERROR_OTHER \<Longrightarrow>
   processErrorResult api s result st =
     (Rejected (JsError ''Error'' (''Invalid result: '' @ to_string result)), st)"
  by (simp add: processErrorResult_def)

lemma processErrorResult_forwards:
  "fst (processErrorResult api s result st) = Fulfilled v \<Longrightarrow> v = result"
  by (auto simp: processErrorResult_def Let_def split: if_splits promise.splits)

text \<open>
  Claim C3. \<open>processErrorResult\<close>: on an authorization error from a scrobbler that
  is not waiting for access to be granted, the scrobbler is no longer in the bound
  array (it is the one element removed when it was bound; the bound array has distinct
  labels, as it has after any sequence of binds and unbinds); on an authorization error
  from a scrobbler that is waiting, and on the other error, the bound array is
  unchanged; on any other result the call rejects with an "Invalid result" error and
  changes nothing; a call that resolves returns the result it was given.
\<close>

theorem processErrorResult_cases:
  "(result = ERROR_AUTH \<and> isReadyForGrantAccess api s = Fulfilled False
      \<and> distinct (map getLabel (boundScrobblers st)) \<longrightarrow>
        fst (processErrorResult api s result st) = Fulfilled result
        \<and> s \<notin> set (boundScrobblers (snd (processErrorResult api s result st)))
        \<and> (s \<in> set (boundScrobblers st) \<longrightarrow>
             boundScrobblers (snd (processErrorResult api s result st))
               = remove1 s (boundScrobblers st)))
   \<and> (result = ERROR_AUTH \<and> isReadyForGrantAccess api s = Fulfilled True \<longrightarrow>
        fst (processErrorResult api s result st) = Fulfilled result
        \<and> boundScrobblers (snd (processErrorResult api s result st)) = boundScrobblers st)
   \<and> (result = ERROR_OTHER \<longrightarrow> processErrorResult api s result st = (Fulfilled result, st))
   \<and> (result \<noteq> ERROR_AUTH \<and> result \<noteq> ERROR_OTHER \<longrightarrow>
        processErrorResult api s result st
          = (Rejected (JsError ''Error'' (''Invalid result: '' @ to_string result)), st))
   \<and> (\<forall>v. fst (processErrorResult api s result st) = Fulfilled v \<longrightarrow> v = result)"
proof -
  have 1: "result = ERROR_AUTH \<and> isReadyForGrantAccess api s = Fulfilled False
      \<and> distinct (map getLabel (boundScrobblers st)) \<longrightarrow>
        fst (processErrorResult api s result st) = Fulfilled result
        \<and> s \<notin> set (boundScrobblers (snd (processErrorResult api s result st)))
        \<and> (s \<in> set (boundScrobblers st) \<longrightarrow>
             boundScrobblers (snd (processErrorResult api s result st))
               = remove1 s (boundScrobblers st))"
    using unbind_not_member [of "request s ''isReadyForGrantAccess'' st" s]
      bound_unbind_member [of s "request s ''isReadyForGrantAccess'' st"]
    by (simp add: processErrorResult_auth)
  have 2: "result = ERROR_AUTH \<and> isReadyForGrantAccess api s = Fulfilled True \<longrightarrow>
        fst (processErrorResult api s result st) = Fulfilled result
        \<and> boundScrobblers (snd (processErrorResult api s result st)) = boundScrobblers st"
    by (simp add: processErrorResult_auth)
  have 3: "result = ERROR_OTHER \<longrightarrow> processErrorResult api s result st = (Fulfilled result, st)"
    by (simp add: processErrorResult_other)
  have 4: "result \<noteq> ERROR_AUTH \<and> result \<noteq> ERROR_OTHER \<longrightarrow>
        processErrorResult api s result st
          = (Rejected (JsError ''Error'' (''Invalid result: '' @ to_string result)), st)"
    by (simp add: processErrorResult_invalid)
  have 5: "\<forall>v. fst (processErrorResult api s result st) = Fulfilled v \<longrightarrow> v = result"
    using processErrorResult_forwards by blast
  show ?thesis
    by (rule conjI [OF 1 conjI [OF 2 conjI [OF 3 conjI [OF 4 5]]]])
qed

text \<open>
  An instance: Libre.fm, bound and not waiting for access, with the authorization
  error, the other error, and the result of a success.
\<close>

theorem processErrorResult_cases_witness:
  "boundScrobblers (snd (processErrorResult exampleBackend libreFm ERROR_AUTH
       (run_binding_ops [Bind lastFm, Bind libreFm] initial_service))) = [lastFm]
   \<and> fst (processErrorResult exampleBackend libreFm ERROR_AUTH
       (run_binding_ops [Bind lastFm, Bind libreFm] initial_service)) = Fulfilled ERROR_AUTH
   \<and> processErrorResult exampleBackend libreFm ERROR_OTHER initial_service
       = (Fulfilled ERROR_OTHER, initial_service)
   \<and> fst (processErrorResult exampleBackend libreFm RESULT_OK initial_service)
       = Rejected (JsError ''Error'' ''Invalid result: ok'')"
proof -
  let ?st = "run_binding_ops [Bind lastFm, Bind libreFm] initial_service"
  note auth = processErrorResult_cases [of ERROR_AUTH exampleBackend libreFm ?st]
  note other = processErrorResult_cases [of ERROR_OTHER exampleBackend libreFm initial_service]
  note invalid = processErrorResult_cases [of RESULT_OK exampleBackend libreFm initial_service]
  have b: "boundScrobblers ?st = [lastFm, libreFm]"
    by (simp add: run_binding_ops_def initial_service_def bound_bindScrobbler)
       (simp add: lastFm_def libreFm_def)
  have h: "ERROR_AUTH = ERROR_AUTH \<and> isReadyForGrantAccess exampleBackend libreFm = Fulfilled False
      \<and> distinct (map getLabel (boundScrobblers ?st))"
    by (simp add: b exampleBackend_def) (simp add: lastFm_def libreFm_def)
  have m: "libreFm \<in> set (boundScrobblers ?st)"
    by (simp add: b)
  have r: "remove1 libreFm (boundScrobblers ?st) = [lastFm]"
    by (simp add: b)
  note c1 = mp [OF conjunct1 [OF auth] h]
  have g1: "boundScrobblers (snd (processErrorResult exampleBackend libreFm ERROR_AUTH ?st)) = [lastFm]"
    using mp [OF conjunct2 [OF conjunct2 [OF c1]] m] r by (rule trans)
  have g2: "fst (processErrorResult exampleBackend libreFm ERROR_AUTH ?st) = Fulfilled ERROR_AUTH"
    using c1 by (rule conjunct1)
  have g3: "processErrorResult exampleBackend libreFm ERROR_OTHER initial_service
       = (Fulfilled ERROR_OTHER, initial_service)"
    using conjunct1 [OF conjunct2 [OF conjunct2 [OF other]]] by simp
  have n: "RESULT_OK \<noteq> ERROR_AUTH \<and> RESULT_OK \<noteq> ERROR_OTHER"
    by (simp add: RESULT_OK_def ERROR_AUTH_def ERROR_OTHER_def)
  have g4: "fst (processErrorResult exampleBackend libreFm RESULT_OK initial_service)
       = Rejected (JsError ''Error'' ''Invalid result: ok'')"
    using mp [OF conjunct1 [OF conjunct2 [OF conjunct2 [OF conjunct2 [OF invalid]]]] n]
    by (simp add: RESULT_OK_def)
  show ?thesis
    by (rule conjI [OF g1 conjI [OF g2 conjI [OF g3 g4]]])
qed

section \<open>Joined promises\<close>

lemma set_effective:
  "set (effective seen sched n) = {i \<in> set sched. i < n \<and> i \<notin> set seen}"
  by (induction sched arbitrary: seen) auto

lemma settle_outcomes:
  assumes "\<And>i st. i < length tasks \<Longrightarrow> fst ((tasks ! i) st) = outs i"
  shows "map (\<lambda>(i, r, s). (i, r)) (fst (settle seen sched tasks st))
           = map (\<lambda>i. (i, outs i)) (effective seen sched (length tasks))"
proof (induction sched arbitrary: seen st)
  case Nil
  show ?case by simp
next
  case (Cons i sched)
  show ?case
  proof (cases "i < length tasks \<and> i \<notin> set seen")
    case True
    obtain r st' where t: "(tasks ! i) st = (r, st')" by (cases "(tasks ! i) st")
    obtain evs st'' where s: "settle (i # seen) sched tasks st' = (evs, st'')"
      by (cases "settle (i # seen) sched tasks st'")
    from assms [of i st] True t have r: "r = outs i" by simp
    from Cons.IH [of "i # seen" st'] s
    have "map (\<lambda>(i, r, s). (i, r)) evs
            = map (\<lambda>i. (i, outs i)) (effective (i # seen) sched (length tasks))"
      by simp
    with True t s r show ?thesis by simp
  next
    case False
    then have "settle seen (i # sched) tasks st = settle seen sched tasks st"
      and "effective seen (i # sched) (length tasks) = effective seen sched (length tasks)"
      by auto
    with Cons.IH [of seen st] show ?thesis by simp
  qed
qed

lemma first_rejection_None:
  "\<forall>(i, r, s)\<in>set evs. \<exists>v. r = Fulfilled v \<Longrightarrow> first_rejection evs = None"
  by (induction evs rule: first_rejection.induct) auto

lemma first_rejection_Some:
  "first_rejection evs = Some (e, s) \<Longrightarrow> \<exists>i. (i, Rejected e, s) \<in> set evs"
  by (induction evs rule: first_rejection.induct) auto

lemma event_outcome:
  assumes ind: "\<And>i st. i < length tasks \<Longrightarrow> fst ((tasks ! i) st) = outs i"
    and ev: "(i, r, s) \<in> set (fst (settle seen sched tasks st))"
  shows "r = outs i \<and> i < length tasks"
proof -
  from ev have "(\<lambda>(i, r, s). (i, r)) (i, r, s)
      \<in> set (map (\<lambda>(i, r, s). (i, r)) (fst (settle seen sched tasks st)))"
    by (simp only: set_map) (rule imageI)
  then have "(i, r) \<in> set (map (\<lambda>i. (i, outs i)) (effective seen sched (length tasks)))"
    by (simp add: settle_outcomes [of tasks outs, OF ind])
  then show ?thesis by (auto simp: set_effective)
qed

lemma map_of_graph:
  "map_of (map (\<lambda>i. (i, f i)) ks) i = (if i \<in> set ks then Some (f i) else None)"
  by (induction ks) auto

lemma fulfilled_value_event:
  assumes ind: "\<And>i st. i < length tasks \<Longrightarrow> fst ((tasks ! i) st) = outs i"
  shows "fulfilled_value (map_of (fst (settle seen sched tasks st)) i)
           = (if i \<in> set (effective seen sched (length tasks))
              then (case outs i of Fulfilled v \<Rightarrow> Some v | Rejected e \<Rightarrow> None) else None)"
proof -
  let ?evs = "fst (settle seen sched tasks st)"
  have "map_option fst (map_of ?evs i) = map_of (map (\<lambda>(k, v). (k, fst v)) ?evs) i"
    by (simp add: map_of_map)
  also have "(\<lambda>(k, v). (k, fst v)) = (\<lambda>(i, r, s). (i, r))"
    by (auto simp: fun_eq_iff)
  finally have m: "map_option fst (map_of ?evs i)
      = (if i \<in> set (effective seen sched (length tasks)) then Some (outs i) else None)"
    by (simp add: settle_outcomes [of tasks outs, OF ind] map_of_graph)
  show ?thesis
  proof (cases "map_of ?evs i")
    case None
    with m show ?thesis by (simp split: if_splits)
  next
    case (Some p)
    obtain r s where p: "p = (r, s)" by (cases p)
    from m Some p have i: "i \<in> set (effective seen sched (length tasks))" and r: "r = outs i"
      by (simp_all split: if_splits)
    show ?thesis
      by (cases "outs i") (simp_all add: Some p r i)
  qed
qed

lemma those_map_Some: "those (map (\<lambda>i. Some (g i)) ks) = Some (map g ks)"
  by (induction ks) simp_all

lemma settles_all_iff: "settles_all sched n \<longleftrightarrow> (\<forall>i<n. i \<in> set sched)"
  by (auto simp: settles_all_def list_all_iff)

text \<open>
  When every task is fulfilled whatever the state it runs in, and every task settles,
  the joined promise is fulfilled with the values in the order of the array.
\<close>

lemma Promise_all_fulfilled:
  assumes ful: "\<And>x st. x \<in> set xs \<Longrightarrow> fst (f x st) = Fulfilled (g x)"
    and all: "settles_all sched (length xs)"
  shows "fst (Promise_all sched (map f xs) st) = Some (Fulfilled (map g xs))"
proof -
  let ?tasks = "map f xs"
  let ?outs = "\<lambda>i. Fulfilled (g (xs ! i))"
  have ind: "\<And>i st. i < length ?tasks \<Longrightarrow> fst ((?tasks ! i) st) = ?outs i"
    by (simp add: ful)
  obtain evs st' where s: "settle [] sched ?tasks st = (evs, st')"
    by (cases "settle [] sched ?tasks st")
  have "\<exists>v. r = Fulfilled v" if "(i, r, s) \<in> set evs" for i r s
    using event_outcome [of ?tasks ?outs i r s "[]" sched st, OF ind] that s by simp
  then have no: "first_rejection evs = None"
    by (intro first_rejection_None) auto
  have eff: "i \<in> set (effective [] sched (length ?tasks))" if "i < length xs" for i
    using all that by (simp add: set_effective settles_all_iff)
  have fv: "fulfilled_value (map_of evs i) = Some (g (xs ! i))" if "i < length xs" for i
    using fulfilled_value_event [of ?tasks ?outs "[]" sched st i, OF ind] s eff [OF that]
    by simp
  have "map (\<lambda>i. fulfilled_value (map_of evs i)) [0..<length xs]
               = map (\<lambda>i. Some (g (xs ! i))) [0..<length xs]"
  proof (rule map_cong [OF refl])
    fix i
    assume "i \<in> set [0..<length xs]"
    then have "i < length xs" by simp
    then show "fulfilled_value (map_of evs i) = Some (g (xs ! i))" by (rule fv)
  qed
  then have "those (map (\<lambda>i. fulfilled_value (map_of evs i)) [0..<length xs])
               = Some (map (\<lambda>i. g (xs ! i)) [0..<length xs])"
    by (simp only: those_map_Some)
  also have "map (\<lambda>i. g (xs ! i)) [0..<length xs] = map g (map (\<lambda>i. xs ! i) [0..<length xs])"
    by (simp only: map_map comp_def)
  also have "\<dots> = map g xs"
    by (simp only: map_nth)
  finally show ?thesis
    using s no by (simp add: Promise_all_def)
qed

text \<open>A join of tasks that are all fulfilled whatever the state never rejects.\<close>

lemma Promise_all_never_rejects:
  assumes ful: "\<And>x st. x \<in> set xs \<Longrightarrow> \<exists>v. fst (f x st) = Fulfilled v"
  shows "fst (Promise_all sched (map f xs) st) \<noteq> Some (Rejected e)"
    and "rejection_state sched (map f xs) st = None"
proof -
  let ?tasks = "map f xs"
  obtain evs st' where s: "settle [] sched ?tasks st = (evs, st')"
    by (cases "settle [] sched ?tasks st")
  have ev: "\<exists>v. r = Fulfilled v" if "(i, r, s) \<in> set evs" for i r s
  proof -
    have "\<exists>v. r = Fulfilled v" if "(i, r, s) \<in> set (fst (settle seen sch ?tasks st0))"
      for seen sch st0
      using that
    proof (induction sch arbitrary: seen st0)
      case Nil
      then show ?case by simp
    next
      case (Cons j sch)
      show ?case
      proof (cases "j < length ?tasks \<and> j \<notin> set seen")
        case True
        obtain r' st1 where t: "(?tasks ! j) st0 = (r', st1)" by (cases "(?tasks ! j) st0")
        from True have "xs ! j \<in> set xs" by simp
        from ful [OF this, of st0] True t obtain v where r': "r' = Fulfilled v" by auto
        from Cons.prems True t
        have "(i, r, s) = (j, r', st1) \<or> (i, r, s) \<in> set (fst (settle (j # seen) sch ?tasks st1))"
          by (auto split: prod.splits)
        with r' Cons.IH show ?thesis by auto
      next
        case False
        then have "settle seen (j # sch) ?tasks st0 = settle seen sch ?tasks st0"
          by auto
        with Cons show ?thesis by simp
      qed
    qed
    with that s show ?thesis by (metis fst_conv)
  qed
  then have no: "first_rejection evs = None"
    by (intro first_rejection_None) auto
  with s show "fst (Promise_all sched (map f xs) st) \<noteq> Some (Rejected e)"
    by (auto simp: Promise_all_def)
  from no s show "rejection_state sched (map f xs) st = None"
    by (simp add: rejection_state_def)
qed

lemma snd_Promise_all: "snd (Promise_all sched tasks st) = snd (settle [] sched tasks st)"
  by (simp add: Promise_all_def split: prod.splits)

lemma settle_invariant:
  assumes step: "\<And>i st. i < length tasks \<Longrightarrow> P st \<Longrightarrow> P (snd ((tasks ! i) st))"
  shows "P st \<Longrightarrow> P (snd (settle seen sched tasks st))"
proof (induction sched arbitrary: seen st)
  case Nil
  then show ?case by simp
next
  case (Cons i sched)
  show ?case
  proof (cases "i < length tasks \<and> i \<notin> set seen")
    case True
    obtain r st' where t: "(tasks ! i) st = (r, st')" by (cases "(tasks ! i) st")
    obtain evs st'' where s: "settle (i # seen) sched tasks st' = (evs, st'')"
      by (cases "settle (i # seen) sched tasks st'")
    from step [of i st] True Cons.prems t have "P st'" by simp
    from Cons.IH [OF this, of "i # seen"] True t s show ?thesis
      by simp
  next
    case False
    then have "settle seen (i # sched) tasks st = settle seen sched tasks st"
      by auto
    with Cons show ?thesis by simp
  qed
qed

lemma Promise_all_invariant:
  assumes "\<And>x st. x \<in> set xs \<Longrightarrow> P st \<Longrightarrow> P (snd (f x st))" and "P st"
  shows "P (snd (Promise_all sched (map f xs) st))"
  unfolding snd_Promise_all
  by (rule settle_invariant) (simp_all add: assms)

section \<open>Single-action dispatch\<close>

lemma fst_handled_processErrorResult:
  "handled api s p \<Longrightarrow>
   fst (promise_catch p (processErrorResult api s) st) = Fulfilled (forwarded p)"
  by (cases p)
     (auto simp: handled_def forwarded_def promise_catch_def processErrorResult_other
        processErrorResult_auth split: promise.splits)

lemma list_all_handled:
  "list_all (\<lambda>s. handled api s (call s)) xs \<Longrightarrow> x \<in> set xs \<Longrightarrow> handled api x (call x)"
  by (simp add: list_all_iff)

lemma dispatch_fulfilled:
  assumes "settles_all sched (length xs)"
    and "list_all (\<lambda>s. handled api s (call s)) xs"
  shows "fst (Promise_all sched
                (map (\<lambda>s. promise_catch (call s) (processErrorResult api s)) xs) st)
           = Some (Fulfilled (map (\<lambda>s. forwarded (call s)) xs))"
  by (rule Promise_all_fulfilled)
     (simp_all add: assms fst_handled_processErrorResult list_all_handled [OF assms(2)])

text \<open>
  Claim C1, as amended. When every bound scrobbler's call settles, and each one that
  rejects does so with the other error, or with the authorization error and a
  resolving \<^verbatim>\<open>isReadyForGrantAccess\<close>, then \<open>scrobble\<close> and \<open>sendNowPlaying\<close> resolve
  with one result per bound scrobbler, in the order of the bound array as it was when
  the call was made: the value a call was fulfilled with, or the error it was rejected
  with, however many calls rejected and in whatever order they settled.
\<close>

theorem settle_all_handled_results:
  "(settles_all sched (length (boundScrobblers st))
      \<and> list_all (\<lambda>s. handled api s (backend_scrobble api s songInfo)) (boundScrobblers st) \<longrightarrow>
        fst (scrobble api sched songInfo st)
          = Some (Fulfilled (map (\<lambda>s. forwarded (backend_scrobble api s songInfo))
                               (boundScrobblers st))))
   \<and> (settles_all sched (length (boundScrobblers st))
      \<and> list_all (\<lambda>s. handled api s (backend_sendNowPlaying api s songInfo)) (boundScrobblers st) \<longrightarrow>
        fst (sendNowPlaying api sched songInfo st)
          = Some (Fulfilled (map (\<lambda>s. forwarded (backend_sendNowPlaying api s songInfo))
                               (boundScrobblers st))))"
  by (simp add: scrobble_def sendNowPlaying_def Let_def dispatch_fulfilled)

text \<open>
  An instance: Last.fm and Libre.fm bound, the second settling first; one call of the
  two rejects in the scrobble, both in the now-playing dispatch.
\<close>

theorem settle_all_handled_results_witness:
  "fst (scrobble exampleBackend [1, 0] ''song''
         (run_binding_ops [Bind lastFm, Bind libreFm] initial_service))
     = Some (Fulfilled [RESULT_OK, ERROR_AUTH])
   \<and> fst (sendNowPlaying exampleBackend [1, 0] ''song''
         (run_binding_ops [Bind lastFm, Bind libreFm] initial_service))
     = Some (Fulfilled [ERROR_AUTH, ERROR_OTHER])"
proof -
  let ?st = "run_binding_ops [Bind lastFm, Bind libreFm] initial_service"
  note inst = settle_all_handled_results [of "[1, 0]" ?st exampleBackend "''song''"]
  have b: "boundScrobblers ?st = [lastFm, libreFm]"
    by (simp add: run_binding_ops_def initial_service_def bound_bindScrobbler)
       (simp add: lastFm_def libreFm_def)
  have s: "settles_all [1, 0] (length (boundScrobblers ?st))"
    by (simp add: b settles_all_iff less_Suc_eq)
  have c: "backend_scrobble exampleBackend lastFm ''song'' = Fulfilled RESULT_OK"
    "backend_scrobble exampleBackend libreFm ''song'' = Rejected ERROR_AUTH"
    "backend_sendNowPlaying exampleBackend lastFm ''song'' = Rejected ERROR_AUTH"
    "backend_sendNowPlaying exampleBackend libreFm ''song'' = Rejected ERROR_OTHER"
    "isReadyForGrantAccess exampleBackend lastFm = Fulfilled False"
    "isReadyForGrantAccess exampleBackend libreFm = Fulfilled False"
    by (simp_all add: exampleBackend_def lastFm_def libreFm_def)
  have h1: "list_all (\<lambda>s. handled exampleBackend s (backend_scrobble exampleBackend s ''song''))
              (boundScrobblers ?st)"
    by (simp add: b c handled_def)
  have h2: "list_all (\<lambda>s. handled exampleBackend s (backend_sendNowPlaying exampleBackend s ''song''))
              (boundScrobblers ?st)"
    by (simp add: b c handled_def)
  have g1: "fst (scrobble exampleBackend [1, 0] ''song'' ?st) = Some (Fulfilled [RESULT_OK, ERROR_AUTH])"
    using mp [OF conjunct1 [OF inst] conjI [OF s h1]] by (simp add: b c forwarded_def)
  have g2: "fst (sendNowPlaying exampleBackend [1, 0] ''song'' ?st)
              = Some (Fulfilled [ERROR_AUTH, ERROR_OTHER])"
    using mp [OF conjunct2 [OF inst] conjI [OF s h2]] by (simp add: b c forwarded_def)
  show ?thesis
    by (rule conjI [OF g1 g2])
qed

text \<open>
  Claim C1 as stated fails when a scrobbler rejects with a value that is neither
  error constant, here the raw network error of ListenBrainz: \<open>processErrorResult\<close>
  throws, the joined promise rejects, and the result of Last.fm, which was fulfilled,
  is not delivered.
\<close>

theorem scrobble_invalid_rejection_counterexample:
  "length (boundScrobblers (run_binding_ops [Bind lastFm, Bind listenBrainz] initial_service)) = 2
   \<and> backend_scrobble exampleBackend lastFm ''offline'' = Fulfilled RESULT_OK
   \<and> fst (scrobble exampleBackend [0, 1] ''offline''
         (run_binding_ops [Bind lastFm, Bind listenBrainz] initial_service))
     = Some (Rejected (JsError ''Error'' ''Invalid result: TypeError: Failed to fetch''))"
proof -
  let ?st = "run_binding_ops [Bind lastFm, Bind listenBrainz] initial_service"
  have b: "boundScrobblers ?st = [lastFm, listenBrainz]"
    by (simp add: run_binding_ops_def initial_service_def bound_bindScrobbler)
       (simp add: lastFm_def listenBrainz_def)
  have c: "backend_scrobble exampleBackend lastFm ''offline'' = Fulfilled RESULT_OK"
    "backend_scrobble exampleBackend listenBrainz ''offline''
       = Rejected (JsError ''TypeError'' ''Failed to fetch'')"
    by (simp_all add: exampleBackend_def lastFm_def listenBrainz_def)
  have p: "processErrorResult exampleBackend listenBrainz (JsError ''TypeError'' ''Failed to fetch'') s
     = (Rejected (JsError ''Error'' ''Invalid result: TypeError: Failed to fetch''), s)" for s
    by (simp add: processErrorResult_invalid ERROR_AUTH_def ERROR_OTHER_def)
  have "fst (scrobble exampleBackend [0, 1] ''offline'' ?st)
     = Some (Rejected (JsError ''Error'' ''Invalid result: TypeError: Failed to fetch''))"
    by (simp add: scrobble_def Let_def Promise_all_def b c p promise_catch_def)
  with b c(1) show ?thesis by simp
qed

section \<open>Song info lookup\<close>

lemma fst_song_info_task:
  "fst (promise_catch p (\<lambda>_ s. (Fulfilled JsNull, h s)) st)
     = Fulfilled (case p of Fulfilled v \<Rightarrow> v | Rejected e \<Rightarrow> JsNull)"
  by (cases p) (simp_all add: promise_catch_def)

text \<open>
  Claim C8. \<open>getSongInfo\<close> never rejects, whatever the scrobblers do and in whatever
  order they settle; when every lookup settles it resolves with one entry per
  registered scrobbler that can load song info, in registered order: the value the
  lookup was fulfilled with, or null where it was rejected.
\<close>

theorem song_info_faults_become_null:
  "fst (getSongInfo api registeredScrobblers sched songInfo st) \<noteq> Some (Rejected e)
   \<and> (settles_all sched (length (filter canLoadSongInfo registeredScrobblers)) \<longrightarrow>
        fst (getSongInfo api registeredScrobblers sched songInfo st)
          = Some (Fulfilled
              (map (\<lambda>s. case backend_getSongInfo api s songInfo of
                         Fulfilled v \<Rightarrow> v | Rejected e \<Rightarrow> JsNull)
                 (filter canLoadSongInfo registeredScrobblers))))"
proof -
  let ?xs = "filter canLoadSongInfo registeredScrobblers"
  let ?f = "\<lambda>scrobbler. promise_catch (backend_getSongInfo api scrobbler songInfo)
              (\<lambda>_ s. (Fulfilled JsNull,
                 console_write ConsoleWarn
                   (''Unable to get song info from '' @ getLabel scrobbler) s))"
  have 1: "fst (Promise_all sched (map ?f ?xs) st') \<noteq> Some (Rejected e)" for st'
    by (rule Promise_all_never_rejects(1)) (simp add: fst_song_info_task)
  have 2: "fst (Promise_all sched (map ?f ?xs) st')
             = Some (Fulfilled (map (\<lambda>s. case backend_getSongInfo api s songInfo of
                         Fulfilled v \<Rightarrow> v | Rejected e \<Rightarrow> JsNull) ?xs))"
    if "settles_all sched (length ?xs)" for st'
    by (rule Promise_all_fulfilled) (simp_all add: fst_song_info_task that)
  show ?thesis
    unfolding getSongInfo_def Let_def
  proof (intro conjI impI)
    show "fst (Promise_all sched (map ?f ?xs)
                 (fold (\<lambda>scrobbler. request scrobbler ''getSongInfo'') ?xs
                    (console_write ConsoleLog
                       (''Send \"get info\" request: '' @ string_of_nat (length ?xs)) st)))
            \<noteq> Some (Rejected e)"
      by (rule 1)
  next
    assume "settles_all sched (length ?xs)"
    then show "fst (Promise_all sched (map ?f ?xs)
                 (fold (\<lambda>scrobbler. request scrobbler ''getSongInfo'') ?xs
                    (console_write ConsoleLog
                       (''Send \"get info\" request: '' @ string_of_nat (length ?xs)) st)))
            = Some (Fulfilled (map (\<lambda>s. case backend_getSongInfo api s songInfo of
                         Fulfilled v \<Rightarrow> v | Rejected e \<Rightarrow> JsNull) ?xs))"
      by (rule 2)
  qed
qed

text \<open>
  An instance: the lookup of Last.fm rejects, that of the other capable scrobbler
  resolves.
\<close>

theorem song_info_faults_become_null_witness:
  "fst (getSongInfo exampleBackend [lastFm, libreFm, lastFmMirror] [1, 0] ''song'' initial_service)
     = Some (Fulfilled [JsNull, JsObject ''song''])"
proof -
  let ?R = "[lastFm, libreFm, lastFmMirror]"
  note inst = song_info_faults_become_null [of exampleBackend ?R "[1, 0]" "''song''" initial_service]
  have f: "filter canLoadSongInfo ?R = [lastFm, lastFmMirror]"
    by (simp add: lastFm_def libreFm_def lastFmMirror_def)
  have s: "settles_all [1, 0] (length (filter canLoadSongInfo ?R))"
    unfolding f by (simp add: settles_all_iff less_Suc_eq)
  have c: "backend_getSongInfo exampleBackend lastFm ''song'' = Rejected (JsError ''Error'' ''timeout'')"
    "backend_getSongInfo exampleBackend lastFmMirror ''song'' = Fulfilled (JsObject ''song'')"
    by (simp_all add: exampleBackend_def lastFm_def lastFmMirror_def)
  show ?thesis
    using mp [OF conjunct2 [OF inst] s] unfolding f by (simp add: c)
qed

section \<open>Which scrobblers a dispatch calls\<close>

lemma calls_console_write [simp]: "calls m (console_write l msg st) = calls m st"
  by (simp add: calls_def)

lemma calls_request:
  "calls m (request s m' st) = (if m' = m then calls m st @ [s] else calls m st)"
  by (simp add: calls_def)

lemma calls_unbindScrobbler [simp]: "calls m (unbindScrobbler s st) = calls m st"
  by (simp add: calls_def)

lemma calls_fold_request:
  "calls m (fold (\<lambda>s. request s m) xs st) = calls m st @ xs"
  by (induction xs arbitrary: st) (simp_all add: calls_request)

lemma calls_processErrorResult:
  "m \<noteq> ''isReadyForGrantAccess'' \<Longrightarrow>
   calls m (snd (processErrorResult api s r st)) = calls m st"
  by (auto simp: processErrorResult_def Let_def calls_request split: promise.splits)

lemma calls_error_task:
  "m \<noteq> ''isReadyForGrantAccess'' \<Longrightarrow>
   calls m (snd (promise_catch p (processErrorResult api s) st)) = calls m st"
  by (cases p) (simp_all add: promise_catch_def calls_processErrorResult)

lemma calls_dispatch:
  assumes "m \<noteq> ''isReadyForGrantAccess''"
  shows "calls m (snd (Promise_all sched
            (map (\<lambda>s. promise_catch (call s) (processErrorResult api s)) xs) st)) = calls m st"
  by (rule Promise_all_invariant [where P = "\<lambda>st'. calls m st' = calls m st"])
     (simp_all add: calls_error_task [OF assms])

lemma calls_sendNowPlaying:
  "calls ''sendNowPlaying'' (snd (sendNowPlaying api sched songInfo st))
     = calls ''sendNowPlaying'' st @ boundScrobblers st"
  by (simp add: sendNowPlaying_def Let_def calls_dispatch calls_fold_request)

lemma calls_scrobble:
  "calls ''scrobble'' (snd (scrobble api sched songInfo st))
     = calls ''scrobble'' st @ boundScrobblers st"
  by (simp add: scrobble_def Let_def calls_dispatch calls_fold_request)

lemma calls_toggleLove:
  "calls ''toggleLove'' (snd (toggleLove api registeredScrobblers sched songInfo flag st))
     = calls ''toggleLove'' st @ filter canLoveSong registeredScrobblers"
  by (simp add: toggleLove_def Let_def calls_dispatch calls_fold_request)

lemma calls_getSongInfo:
  "calls ''getSongInfo'' (snd (getSongInfo api registeredScrobblers sched songInfo st))
     = calls ''getSongInfo'' st @ filter canLoadSongInfo registeredScrobblers"
proof -
  let ?xs = "filter canLoadSongInfo registeredScrobblers"
  have inv: "calls ''getSongInfo'' (snd (Promise_all sched
          (map (\<lambda>scrobbler. promise_catch (backend_getSongInfo api scrobbler songInfo)
                  (\<lambda>_ s. (Fulfilled JsNull,
                     console_write ConsoleWarn
                       (''Unable to get song info from '' @ getLabel scrobbler) s))) ?xs) st'))
        = calls ''getSongInfo'' st'" for st'
    by (rule Promise_all_invariant [where P = "\<lambda>s. calls ''getSongInfo'' s = calls ''getSongInfo'' st'"])
       (auto simp: promise_catch_def split: promise.splits)
  show ?thesis
    unfolding getSongInfo_def Let_def
    by (simp only: inv calls_fold_request calls_console_write)
qed

text \<open>
  Claim C5, as amended. A now-playing or scrobble dispatch calls exactly the bound
  scrobblers, in bound order; a love toggle calls exactly the registered scrobblers
  that can love songs, bound or not; a song info lookup calls exactly the registered
  scrobblers that can load song info.
\<close>

theorem dispatch_targets:
  "calls ''sendNowPlaying'' (snd (sendNowPlaying api sched songInfo st))
     = calls ''sendNowPlaying'' st @ boundScrobblers st
   \<and> calls ''scrobble'' (snd (scrobble api sched songInfo st))
     = calls ''scrobble'' st @ boundScrobblers st
   \<and> calls ''toggleLove'' (snd (toggleLove api registeredScrobblers sched songInfo flag st))
     = calls ''toggleLove'' st @ filter canLoveSong registeredScrobblers
   \<and> calls ''getSongInfo'' (snd (getSongInfo api registeredScrobblers sched songInfo st))
     = calls ''getSongInfo'' st @ filter canLoadSongInfo registeredScrobblers"
  by (rule conjI [OF calls_sendNowPlaying conjI [OF calls_scrobble
        conjI [OF calls_toggleLove calls_getSongInfo]]])

text \<open>
  An instance: only Libre.fm is bound.
\<close>

theorem dispatch_targets_witness:
  "calls ''scrobble'' (snd (scrobble exampleBackend [0] ''song''
       (run_binding_ops [Bind libreFm] initial_service))) = [libreFm]
   \<and> calls ''toggleLove'' (snd (toggleLove exampleBackend [lastFm, libreFm, listenBrainz] [0, 1]
       ''song'' True (run_binding_ops [Bind libreFm] initial_service))) = [lastFm, libreFm]
   \<and> calls ''getSongInfo'' (snd (getSongInfo exampleBackend [lastFm, libreFm, listenBrainz] [0]
       ''song'' (run_binding_ops [Bind libreFm] initial_service))) = [lastFm]"
proof -
  let ?st = "run_binding_ops [Bind libreFm] initial_service"
  let ?R = "[lastFm, libreFm, listenBrainz]"
  have b: "boundScrobblers ?st = [libreFm]"
    by (simp add: run_binding_ops_def initial_service_def bound_bindScrobbler)
  have r: "requests ?st = []"
    by (simp add: run_binding_ops_def initial_service_def)
  have c: "calls m ?st = []" for m
    by (simp add: calls_def r)
  have f: "filter canLoveSong ?R = [lastFm, libreFm]" "filter canLoadSongInfo ?R = [lastFm]"
    by (simp_all add: lastFm_def libreFm_def listenBrainz_def)
  from dispatch_targets [of exampleBackend "[0]" "''song''" ?st ?R True]
  have g1: "calls ''scrobble'' (snd (scrobble exampleBackend [0] ''song'' ?st)) = [libreFm]"
    by (simp only: b c append_Nil)
  from dispatch_targets [of exampleBackend "[0, 1]" "''song''" ?st ?R True]
  have g2: "calls ''toggleLove'' (snd (toggleLove exampleBackend ?R [0, 1] ''song'' True ?st))
              = [lastFm, libreFm]"
    by (simp only: b c f append_Nil)
  from dispatch_targets [of exampleBackend "[0]" "''song''" ?st ?R True]
  have g3: "calls ''getSongInfo'' (snd (getSongInfo exampleBackend ?R [0] ''song'' ?st)) = [lastFm]"
    by (simp only: b c f append_Nil)
  show ?thesis
    by (rule conjI [OF g1 conjI [OF g2 g3]])
qed

text \<open>
  Claim C5 as stated fails for the love toggle: Last.fm is registered and not bound,
  and \<open>toggleLove\<close> calls it.
\<close>

theorem toggleLove_unbound_counterexample:
  "lastFm \<in> set [lastFm, libreFm, listenBrainz]
   \<and> lastFm \<notin> set (boundScrobblers (run_binding_ops [Bind libreFm] initial_service))
   \<and> calls ''toggleLove'' (run_binding_ops [Bind libreFm] initial_service) = []
   \<and> calls ''toggleLove'' (snd (toggleLove exampleBackend [lastFm, libreFm, listenBrainz] [0, 1]
       ''song'' True (run_binding_ops [Bind libreFm] initial_service))) = [lastFm, libreFm]"
proof -
  let ?st = "run_binding_ops [Bind libreFm] initial_service"
  let ?R = "[lastFm, libreFm, listenBrainz]"
  have b: "boundScrobblers ?st = [libreFm]"
    by (simp add: run_binding_ops_def initial_service_def bound_bindScrobbler)
  have n: "lastFm \<noteq> libreFm"
    by (simp add: lastFm_def libreFm_def)
  have r: "requests ?st = []"
    by (simp add: run_binding_ops_def initial_service_def)
  have c: "calls ''toggleLove'' ?st = []"
    by (simp add: calls_def r)
  have f: "filter canLoveSong ?R = [lastFm, libreFm]"
    by (simp add: lastFm_def libreFm_def listenBrainz_def)
  have g: "calls ''toggleLove'' (snd (toggleLove exampleBackend ?R [0, 1] ''song'' True ?st))
              = [lastFm, libreFm]"
    by (simp only: calls_toggleLove c f append_Nil)
  from b n c g show ?thesis by simp
qed

section \<open>Chunks\<close>

lemma chunks_of_Nil [simp]: "chunks_of [] m = []"
  by (simp add: chunks_of.simps)

lemma chunks_of_step:
  "xs \<noteq> [] \<Longrightarrow> 0 < m \<Longrightarrow> chunks_of xs m = take m xs # chunks_of (drop m xs) m"
  by (subst chunks_of.simps) simp

lemma concat_chunks_of: "0 < m \<Longrightarrow> concat (chunks_of xs m) = xs"
proof (induction xs m rule: chunks_of.induct)
  case (1 xs m)
  show ?case
  proof (cases "xs = []")
    case True
    then show ?thesis by simp
  next
    case False
    with 1 show ?thesis by (simp add: chunks_of_step)
  qed
qed

lemma length_chunks_of: "0 < m \<Longrightarrow> length (chunks_of xs m) = (length xs + m - 1) div m"
proof (induction xs m rule: chunks_of.induct)
  case (1 xs m)
  show ?case
  proof (cases "xs = []")
    case True
    with "1.prems" show ?thesis by simp
  next
    case False
    then have pos: "0 < length xs" by simp
    from 1 False have IH: "length (chunks_of (drop m xs) m) = (length xs - m + m - 1) div m"
      by simp
    show ?thesis
    proof (cases "length xs \<le> m")
      case True
      from pos obtain n where n: "length xs = Suc n"
        by (cases "length xs") auto
      with True have "m * 1 \<le> length xs + m - 1" and "length xs + m - 1 < m * Suc 1"
        by simp_all
      then have "(length xs + m - 1) div m = 1"
        by (rule div_nat_eqI)
      moreover from True "1.prems" have "(length xs - m + m - 1) div m = 0"
        by simp
      ultimately show ?thesis
        using False "1.prems" IH by (simp add: chunks_of_step)
    next
      case False
      then have "length xs + m - 1 = (length xs - m + m - 1) + m" by simp
      then have "(length xs + m - 1) div m = Suc ((length xs - m + m - 1) div m)"
        using "1.prems" by (simp only: div_add_self2)
      with \<open>xs \<noteq> []\<close> "1.prems" IH show ?thesis by (simp add: chunks_of_step)
    qed
  qed
qed

lemma nth_chunks_of:
  "0 < m \<Longrightarrow> k < length (chunks_of xs m) \<Longrightarrow> chunks_of xs m ! k = take m (drop (k * m) xs)"
proof (induction xs m arbitrary: k rule: chunks_of.induct)
  case (1 xs m)
  show ?case
  proof (cases "xs = []")
    case True
    with "1.prems" show ?thesis by simp
  next
    case False
    show ?thesis
    proof (cases k)
      case 0
      with False "1.prems" show ?thesis by (simp add: chunks_of_step)
    next
      case (Suc j)
      with False "1.prems" have "j < length (chunks_of (drop m xs) m)"
        by (simp add: chunks_of_step)
      with "1.IH" [of j] False "1.prems"
      have "chunks_of (drop m xs) m ! j = take m (drop (j * m) (drop m xs))" by simp
      with Suc False "1.prems" show ?thesis
        by (simp add: chunks_of_step add.commute)
    qed
  qed
qed

lemma chunks_of_sizes:
  "0 < m \<Longrightarrow> c \<in> set (chunks_of xs m) \<Longrightarrow> c \<noteq> [] \<and> length c \<le> m"
proof (induction xs m rule: chunks_of.induct)
  case (1 xs m)
  show ?case
  proof (cases "xs = []")
    case True
    with "1.prems" show ?thesis by simp
  next
    case False
    with "1.prems" have "c = take m xs \<or> c \<in> set (chunks_of (drop m xs) m)"
      by (simp add: chunks_of_step)
    with 1 False show ?thesis by auto
  qed
qed

lemma chunks_of_full:
  assumes "0 < m" and "Suc k < length (chunks_of xs m)"
  shows "length (chunks_of xs m ! k) = m"
proof -
  from assms have "Suc k < (length xs + m - 1) div m"
    by (simp add: length_chunks_of)
  then have "Suc (Suc k) \<le> (length xs + m - 1) div m"
    by simp
  then have "Suc (Suc k) * m \<le> length xs + m - 1"
    using assms(1) by (simp only: less_eq_div_iff_mult_less_eq)
  then have "k * m + m \<le> length xs" by simp
  moreover from assms have "chunks_of xs m ! k = take m (drop (k * m) xs)"
    by (simp add: nth_chunks_of)
  ultimately show ?thesis by simp
qed

section \<open>The batch call of one scrobbler\<close>

lemma settle_appends:
  assumes app: "\<And>i st. i < length tasks \<Longrightarrow> snd ((tasks ! i) st) = st @ inc i"
  shows "snd (settle seen sched tasks st)
           = st @ concat (map inc (effective seen sched (length tasks)))"
proof (induction sched arbitrary: seen st)
  case Nil
  show ?case by simp
next
  case (Cons i sched)
  show ?case
  proof (cases "i < length tasks \<and> i \<notin> set seen")
    case True
    obtain r st' where t: "(tasks ! i) st = (r, st')" by (cases "(tasks ! i) st")
    obtain evs st'' where s: "settle (i # seen) sched tasks st' = (evs, st'')"
      by (cases "settle (i # seen) sched tasks st'")
    from app [of i st] True t have "st' = st @ inc i" by simp
    with Cons.IH [of "i # seen" st'] True t s show ?thesis by simp
  next
    case False
    then have "settle seen (i # sched) tasks st = settle seen sched tasks st"
      and "effective seen (i # sched) (length tasks) = effective seen sched (length tasks)"
      by auto
    with Cons.IH [of seen st] show ?thesis by simp
  qed
qed

lemma fst_chunk_request:
  "\<exists>v. fst (chunk_request api s m kc st) = Fulfilled v"
  by (cases kc; cases "scrobbleBatchWithLimit api s (snd kc)")
     (simp_all add: chunk_request_def promise_catch_def)

lemma snd_chunk_request:
  "snd (chunk_request api s (getMaxTrackCountToScrobble s) (k, chunk) st)
     = st @ chunk_failures api s k chunk"
  by (cases "scrobbleBatchWithLimit api s chunk")
     (simp_all add: chunk_request_def promise_catch_def chunk_failures_def Let_def)

lemma batch_never_rejects:
  "BaseScrobbler_scrobbleBatch api sched s songs \<noteq> Some (Rejected e)"
proof -
  have "fst (Promise_all sched (map (chunk_request api s m) kcs) st) \<noteq> Some (Rejected e')"
    for m kcs st e'
    by (rule Promise_all_never_rejects(1)) (rule fst_chunk_request)
  note nr = this
  show ?thesis
  proof
    assume a: "BaseScrobbler_scrobbleBatch api sched s songs = Some (Rejected e)"
    show False
    proof (cases "splitArrayToChunks songs (getMaxTrackCountToScrobble s)")
      case None
      with a show False by (simp add: BaseScrobbler_scrobbleBatch_def)
    next
      case (Some chunks)
      obtain p q where pq: "Promise_all sched
          (map (chunk_request api s (getMaxTrackCountToScrobble s)) (enumerate 0 chunks)) [] = (p, q)"
        by (cases "Promise_all sched
          (map (chunk_request api s (getMaxTrackCountToScrobble s)) (enumerate 0 chunks)) []")
      with nr [of "getMaxTrackCountToScrobble s" "enumerate 0 chunks" "[]"]
      have "p \<noteq> Some (Rejected e')" for e' by simp
      with a Some pq show False
        by (auto simp: BaseScrobbler_scrobbleBatch_def Let_def split: option.splits promise.splits)
    qed
  qed
qed

lemma enumerate_nth_task:
  "i < length chunks \<Longrightarrow>
   map (chunk_request api s m) (enumerate 0 chunks) ! i = chunk_request api s m (i, chunks ! i)"
  by (simp add: nth_enumerate_eq)

lemma batch_results:
  assumes m: "0 < getMaxTrackCountToScrobble s"
    and all: "settles_all sched (length (chunks_of songs (getMaxTrackCountToScrobble s)))"
  shows "BaseScrobbler_scrobbleBatch api sched s songs
           = Some (Fulfilled (concat (map (\<lambda>k. chunk_failures api s k
                 (chunks_of songs (getMaxTrackCountToScrobble s) ! k))
               (effective [] sched (length (chunks_of songs (getMaxTrackCountToScrobble s)))))))"
proof -
  let ?m = "getMaxTrackCountToScrobble s"
  let ?chunks = "chunks_of songs ?m"
  let ?tasks = "map (chunk_request api s ?m) (enumerate 0 ?chunks)"
  let ?inc = "\<lambda>k. chunk_failures api s k (?chunks ! k)"
  have len: "length ?tasks = length ?chunks" by simp
  have "\<exists>vs. fst (Promise_all sched ?tasks []) = Some (Fulfilled vs)"
  proof -
    have "fst (Promise_all sched ?tasks [])
            = Some (Fulfilled (map (\<lambda>kc. case scrobbleBatchWithLimit api s (snd kc) of
                   Fulfilled v \<Rightarrow> v | Rejected e \<Rightarrow> JsUndefined) (enumerate 0 ?chunks)))"
    proof (rule Promise_all_fulfilled)
      fix x :: "nat \<times> 'a list" and st :: "nat list"
      show "fst (chunk_request api s ?m x st)
              = Fulfilled (case scrobbleBatchWithLimit api s (snd x) of
                   Fulfilled v \<Rightarrow> v | Rejected e \<Rightarrow> JsUndefined)"
        by (cases x; cases "scrobbleBatchWithLimit api s (snd x)")
           (simp_all add: chunk_request_def promise_catch_def)
    next
      from all show "settles_all sched (length (enumerate 0 ?chunks))" by simp
    qed
    then show ?thesis by blast
  qed
  then obtain vs where f: "fst (Promise_all sched ?tasks []) = Some (Fulfilled vs)" ..
  have "snd (settle [] sched ?tasks []) = [] @ concat (map ?inc (effective [] sched (length ?tasks)))"
  proof (rule settle_appends)
    fix i and st :: "nat list"
    assume "i < length ?tasks"
    then have "i < length ?chunks" by simp
    then show "snd ((?tasks ! i) st) = st @ ?inc i"
      by (simp only: enumerate_nth_task snd_chunk_request)
  qed
  then have r: "snd (Promise_all sched ?tasks [])
      = concat (map ?inc (effective [] sched (length ?chunks)))"
    by (simp add: snd_Promise_all)
  obtain p q where pq: "Promise_all sched ?tasks [] = (p, q)"
    by (cases "Promise_all sched ?tasks []")
  with f r have "p = Some (Fulfilled vs)"
    and "q = concat (map ?inc (effective [] sched (length ?chunks)))"
    by simp_all
  with pq m show ?thesis
    by (simp add: BaseScrobbler_scrobbleBatch_def Let_def splitArrayToChunks_def)
qed

lemma set_batch_failures:
  assumes "settles_all sched n"
  shows "set (concat (map inc (effective [] sched n))) = (\<Union>k\<in>{..<n}. set (inc k))"
proof -
  from assms have "set (effective [] sched n) = {..<n}"
    by (auto simp: set_effective settles_all_iff)
  then show ?thesis by simp
qed

lemma set_chunk_failures:
  "set (chunk_failures api s k chunk)
     = {k * getMaxTrackCountToScrobble s + i |i songIndices.
          scrobbleBatchWithLimit api s chunk = Rejected songIndices \<and> i \<in> set songIndices}"
  by (cases "scrobbleBatchWithLimit api s chunk") (auto simp: chunk_failures_def)

lemma set_batch_results:
  assumes "settles_all sched (length chunks)"
  shows "set (concat (map (\<lambda>k. chunk_failures api s k (chunks ! k))
                (effective [] sched (length chunks))))
           = {k * getMaxTrackCountToScrobble s + i |k i songIndices.
                k < length chunks
                \<and> scrobbleBatchWithLimit api s (chunks ! k) = Rejected songIndices
                \<and> i \<in> set songIndices}"
  unfolding set_batch_failures [OF assms] set_chunk_failures
  by blast

text \<open>
  Claim C4. For a scrobbler with a positive chunk size M, the batch is split into
  ceil(N/M) chunks; chunk k is the M songs from position k * M on (fewer at the end of
  the batch), so the chunks are contiguous, in order, non-empty, of length M except
  possibly the last, and together the whole batch. When every chunk request settles,
  the batch call resolves with a list that holds exactly the numbers k * M + i for
  the local indices i that chunk k was rejected with.
\<close>

theorem chunking_law:
  "0 < getMaxTrackCountToScrobble s \<longrightarrow>
     splitArrayToChunks songs (getMaxTrackCountToScrobble s)
       = Some (chunks_of songs (getMaxTrackCountToScrobble s))
     \<and> length (chunks_of songs (getMaxTrackCountToScrobble s))
         = (length songs + getMaxTrackCountToScrobble s - 1) div getMaxTrackCountToScrobble s
     \<and> concat (chunks_of songs (getMaxTrackCountToScrobble s)) = songs
     \<and> (\<forall>k<length (chunks_of songs (getMaxTrackCountToScrobble s)).
           chunks_of songs (getMaxTrackCountToScrobble s) ! k
             = take (getMaxTrackCountToScrobble s) (drop (k * getMaxTrackCountToScrobble s) songs)
           \<and> chunks_of songs (getMaxTrackCountToScrobble s) ! k \<noteq> []
           \<and> (Suc k < length (chunks_of songs (getMaxTrackCountToScrobble s)) \<longrightarrow>
                length (chunks_of songs (getMaxTrackCountToScrobble s) ! k)
                  = getMaxTrackCountToScrobble s))
     \<and> (settles_all sched (length (chunks_of songs (getMaxTrackCountToScrobble s))) \<longrightarrow>
          (\<exists>results.
             BaseScrobbler_scrobbleBatch api sched s songs = Some (Fulfilled results)
             \<and> set results
                 = {k * getMaxTrackCountToScrobble s + i |k i songIndices.
                      k < length (chunks_of songs (getMaxTrackCountToScrobble s))
                      \<and> scrobbleBatchWithLimit api s
                           (chunks_of songs (getMaxTrackCountToScrobble s) ! k)
                          = Rejected songIndices
                      \<and> i \<in> set songIndices}))"
proof
  let ?m = "getMaxTrackCountToScrobble s"
  let ?chunks = "chunks_of songs ?m"
  assume m: "0 < ?m"
  have 1: "splitArrayToChunks songs ?m = Some ?chunks"
    using m by (simp add: splitArrayToChunks_def)
  have 2: "length ?chunks = (length songs + ?m - 1) div ?m"
    using m by (rule length_chunks_of)
  have 3: "concat ?chunks = songs"
    using m by (rule concat_chunks_of)
  have 4: "\<forall>k<length ?chunks.
             ?chunks ! k = take ?m (drop (k * ?m) songs)
             \<and> ?chunks ! k \<noteq> []
             \<and> (Suc k < length ?chunks \<longrightarrow> length (?chunks ! k) = ?m)"
  proof (intro allI impI conjI)
    fix k
    assume k: "k < length ?chunks"
    show "?chunks ! k = take ?m (drop (k * ?m) songs)"
      using m k by (rule nth_chunks_of)
    from k have "?chunks ! k \<in> set ?chunks" by simp
    with chunks_of_sizes [OF m] show "?chunks ! k \<noteq> []" by blast
  next
    fix k
    assume "Suc k < length ?chunks"
    with m show "length (?chunks ! k) = ?m" by (rule chunks_of_full)
  qed
  have 5: "settles_all sched (length ?chunks) \<longrightarrow>
          (\<exists>results.
             BaseScrobbler_scrobbleBatch api sched s songs = Some (Fulfilled results)
             \<and> set results
                 = {k * ?m + i |k i songIndices.
                      k < length ?chunks
                      \<and> scrobbleBatchWithLimit api s (?chunks ! k) = Rejected songIndices
                      \<and> i \<in> set songIndices})"
  proof
    assume all: "settles_all sched (length ?chunks)"
    show "\<exists>results.
             BaseScrobbler_scrobbleBatch api sched s songs = Some (Fulfilled results)
             \<and> set results
                 = {k * ?m + i |k i songIndices.
                      k < length ?chunks
                      \<and> scrobbleBatchWithLimit api s (?chunks ! k) = Rejected songIndices
                      \<and> i \<in> set songIndices}"
      using batch_results [OF m all, of api] set_batch_results [OF all, of api s]
      by blast
  qed
  show "splitArrayToChunks songs ?m = Some ?chunks
     \<and> length ?chunks = (length songs + ?m - 1) div ?m
     \<and> concat ?chunks = songs
     \<and> (\<forall>k<length ?chunks.
             ?chunks ! k = take ?m (drop (k * ?m) songs)
             \<and> ?chunks ! k \<noteq> []
             \<and> (Suc k < length ?chunks \<longrightarrow> length (?chunks ! k) = ?m))
     \<and> (settles_all sched (length ?chunks) \<longrightarrow>
          (\<exists>results.
             BaseScrobbler_scrobbleBatch api sched s songs = Some (Fulfilled results)
             \<and> set results
                 = {k * ?m + i |k i songIndices.
                      k < length ?chunks
                      \<and> scrobbleBatchWithLimit api s (?chunks ! k) = Rejected songIndices
                      \<and> i \<in> set songIndices}))"
    by (rule conjI [OF 1 conjI [OF 2 conjI [OF 3 conjI [OF 4 5]]]])
qed

lemma chunks_sevenSongs:
  "chunks_of sevenSongs 3 = [[''s0'', ''s1'', ''s2''], [''s3'', ''s4'', ''s5''], [''s6'']]"
  by (simp add: sevenSongs_def chunks_of_step)

lemma listenBrainz_chunk_failures:
  "chunk_failures exampleBackend listenBrainz 0 [''s0'', ''s1'', ''s2''] = []"
  "chunk_failures exampleBackend listenBrainz (Suc 0) [''s3'', ''s4'', ''s5''] = [4]"
  "chunk_failures exampleBackend listenBrainz 2 [''s6''] = []"
  by (simp_all add: chunk_failures_def exampleBackend_def listenBrainz_def)

lemma listenBrainz_batch:
  "BaseScrobbler_scrobbleBatch exampleBackend [2, 0, 1] listenBrainz sevenSongs
     = Some (Fulfilled [4])"
proof -
  have m: "getMaxTrackCountToScrobble listenBrainz = 3"
    by (simp add: listenBrainz_def)
  have all: "settles_all [2, 0, 1] (length (chunks_of sevenSongs (getMaxTrackCountToScrobble listenBrainz)))"
    unfolding m chunks_sevenSongs by (simp add: settles_all_iff less_Suc_eq)
  have e: "effective [] [2, 0, 1] 3 = [2, 0, 1]"
    by simp
  have "0 < getMaxTrackCountToScrobble listenBrainz"
    by (simp add: m)
  from batch_results [OF this all, of exampleBackend] show ?thesis
    unfolding m chunks_sevenSongs
    by (simp add: e listenBrainz_chunk_failures)
qed

text \<open>
  An instance: seven songs in chunks of three for ListenBrainz, the chunks settling in
  the order 2, 0, 1.
\<close>

theorem chunking_law_witness:
  "length (chunks_of sevenSongs (getMaxTrackCountToScrobble listenBrainz)) = 3
   \<and> concat (chunks_of sevenSongs (getMaxTrackCountToScrobble listenBrainz)) = sevenSongs
   \<and> chunks_of sevenSongs (getMaxTrackCountToScrobble listenBrainz) ! 1 = [''s3'', ''s4'', ''s5'']
   \<and> (\<exists>results.
         BaseScrobbler_scrobbleBatch exampleBackend [2, 0, 1] listenBrainz sevenSongs
           = Some (Fulfilled results)
         \<and> set results = {4})"
proof -
  let ?m = "getMaxTrackCountToScrobble listenBrainz"
  note inst = chunking_law [of listenBrainz sevenSongs "[2, 0, 1]" exampleBackend]
  have m: "?m = 3"
    by (simp add: listenBrainz_def)
  have pos: "0 < ?m"
    by (simp add: m)
  note law = mp [OF inst pos]
  have n: "(length sevenSongs + ?m - 1) div ?m = 3"
    by (simp add: m sevenSongs_def)
  from law have "length (chunks_of sevenSongs ?m) = (length sevenSongs + ?m - 1) div ?m"
    by blast
  then have g1: "length (chunks_of sevenSongs ?m) = 3"
    using n by (rule trans)
  from law have g2: "concat (chunks_of sevenSongs ?m) = sevenSongs"
    by blast
  from law g1 have "chunks_of sevenSongs ?m ! 1 = take ?m (drop (1 * ?m) sevenSongs)"
    by simp
  then have g3: "chunks_of sevenSongs ?m ! 1 = [''s3'', ''s4'', ''s5'']"
    by (simp add: m sevenSongs_def)
  have all: "settles_all [2, 0, 1] (length (chunks_of sevenSongs ?m))"
    by (simp add: g1 settles_all_iff) arith
  with law obtain results
    where r: "BaseScrobbler_scrobbleBatch exampleBackend [2, 0, 1] listenBrainz sevenSongs
                = Some (Fulfilled results)"
    by blast
  with listenBrainz_batch have "results = [4]"
    by simp
  with r have g4: "\<exists>results.
         BaseScrobbler_scrobbleBatch exampleBackend [2, 0, 1] listenBrainz sevenSongs
           = Some (Fulfilled results)
         \<and> set results = {4}"
    by simp
  show ?thesis
    by (rule conjI [OF g1 conjI [OF g2 conjI [OF g3 g4]]])
qed

section \<open>The batch dispatch of the service\<close>

lemma batch_promises_not_rejected:
  "p \<in> set (batch_promises api chunk_sched songs scrobblers) \<Longrightarrow> p \<noteq> Some (Rejected e)"
  by (auto simp: batch_promises_def batch_never_rejects)

lemma batch_task_fulfilled:
  "p \<noteq> Some (Rejected e) \<Longrightarrow> (\<And>e'. p \<noteq> Some (Rejected e')) \<Longrightarrow>
   batch_task s p st
     = (Fulfilled (case p of Some (Fulfilled indices) \<Rightarrow> JsIndices indices | _ \<Rightarrow> JsUndefined), st)"
  by (cases p) (auto simp: batch_task_def split: promise.splits)

lemma batch_task_of_promise:
  assumes "sp \<in> set (zip scrobblers (batch_promises api chunk_sched songs scrobblers))"
  shows "(case sp of (s, p) \<Rightarrow> batch_task s p) st
     = (Fulfilled (case snd sp of Some (Fulfilled indices) \<Rightarrow> JsIndices indices
                                | _ \<Rightarrow> JsUndefined), st)"
proof -
  obtain s p where sp: "sp = (s, p)" by (cases sp)
  with assms have "p \<in> set (batch_promises api chunk_sched songs scrobblers)"
    by (auto dest: set_zip_rightD)
  then have "p \<noteq> Some (Rejected e')" for e'
    by (rule batch_promises_not_rejected)
  then show ?thesis
    by (simp add: sp batch_task_fulfilled)
qed

lemma join_tasks_quiet:
  "fst (Promise_all sched
          (map (\<lambda>(scrobbler, p). batch_task scrobbler p)
             (zip scrobblers (batch_promises api chunk_sched songs scrobblers))) [])
     \<noteq> Some (Rejected e)"
  "snd (Promise_all sched
          (map (\<lambda>(scrobbler, p). batch_task scrobbler p)
             (zip scrobblers (batch_promises api chunk_sched songs scrobblers))) []) = []"
proof -
  show "fst (Promise_all sched
          (map (\<lambda>(scrobbler, p). batch_task scrobbler p)
             (zip scrobblers (batch_promises api chunk_sched songs scrobblers))) [])
     \<noteq> Some (Rejected e)"
    by (rule Promise_all_never_rejects(1)) (simp add: batch_task_of_promise)
  show "snd (Promise_all sched
          (map (\<lambda>(scrobbler, p). batch_task scrobbler p)
             (zip scrobblers (batch_promises api chunk_sched songs scrobblers))) []) = []"
    by (rule Promise_all_invariant [where P = "\<lambda>st. st = []"])
       (simp_all add: batch_task_of_promise)
qed

lemma scrobbleBatch_join_eq:
  "scrobbleBatch_join api sched chunk_sched songs scrobblers
     = Promise_all
         (filter (\<lambda>i. i < length (batch_promises api chunk_sched songs scrobblers)
                      \<and> batch_promises api chunk_sched songs scrobblers ! i \<noteq> None) sched)
         (map (\<lambda>(scrobbler, p). batch_task scrobbler p)
            (zip scrobblers (batch_promises api chunk_sched songs scrobblers))) []"
proof -
  let ?ps = "batch_promises api chunk_sched songs scrobblers"
  let ?sched = "filter (\<lambda>i. i < length ?ps \<and> ?ps ! i \<noteq> None) sched"
  let ?tasks = "map (\<lambda>(scrobbler, p). batch_task scrobbler p) (zip scrobblers ?ps)"
  obtain r final where pa: "Promise_all ?sched ?tasks [] = (r, final)"
    by (cases "Promise_all ?sched ?tasks []")
  with join_tasks_quiet(1) [of ?sched scrobblers api chunk_sched songs]
  have "r \<noteq> Some (Rejected e)" for e by simp
  then have "(case (r, final) of
         (Some (Rejected err), final) \<Rightarrow> f err final
       | (r, final) \<Rightarrow> (r, final)) = (r, final)" for f
    by (cases r) (auto split: promise.splits)
  with pa show ?thesis
    by (simp add: scrobbleBatch_join_def Let_def)
qed

lemma scrobbleBatch_join_fulfilled:
  assumes all: "settles_all sched (length scrobblers)"
    and ret: "None \<notin> set (batch_promises api chunk_sched songs scrobblers)"
  shows "fst (scrobbleBatch_join api sched chunk_sched songs scrobblers)
           = Some (Fulfilled
               (map (\<lambda>p. case p of Some (Fulfilled indices) \<Rightarrow> JsIndices indices
                              | _ \<Rightarrow> JsUndefined)
                  (batch_promises api chunk_sched songs scrobblers)))"
proof -
  let ?ps = "batch_promises api chunk_sched songs scrobblers"
  let ?sched = "filter (\<lambda>i. i < length ?ps \<and> ?ps ! i \<noteq> None) sched"
  let ?g = "\<lambda>p. case p of Some (Fulfilled indices) \<Rightarrow> JsIndices indices | _ \<Rightarrow> JsUndefined"
  have len: "length ?ps = length scrobblers"
    by (simp add: batch_promises_def)
  have "i \<in> set ?sched" if "i < length scrobblers" for i
  proof -
    from that len have "?ps ! i \<in> set ?ps" by simp
    with ret have "?ps ! i \<noteq> None" by metis
    with that all len show ?thesis by (simp add: settles_all_iff)
  qed
  then have s: "settles_all ?sched (length (zip scrobblers ?ps))"
    by (simp add: settles_all_iff len)
  have "fst (Promise_all ?sched
               (map (\<lambda>(scrobbler, p). batch_task scrobbler p) (zip scrobblers ?ps)) [])
          = Some (Fulfilled (map (\<lambda>sp. ?g (snd sp)) (zip scrobblers ?ps)))"
    by (rule Promise_all_fulfilled [OF _ s]) (simp add: batch_task_of_promise)
  also have "map (\<lambda>sp. ?g (snd sp)) (zip scrobblers ?ps) = map ?g (map snd (zip scrobblers ?ps))"
    by (simp only: map_map comp_def)
  also have "map snd (zip scrobblers ?ps) = ?ps"
    by (simp add: len)
  finally show ?thesis
    by (simp only: scrobbleBatch_join_eq)
qed



lemma lastFm_batch_in_order:
  "BaseScrobbler_scrobbleBatch exampleBackend [0, 1, 2] lastFm sevenSongs = Some (Fulfilled [])"
proof -
  have m: "getMaxTrackCountToScrobble lastFm = 50"
    by (simp add: lastFm_def)
  have c: "chunks_of sevenSongs 50 = [sevenSongs]"
    by (simp add: sevenSongs_def chunks_of_step)
  have all: "settles_all [0, 1, 2] (length (chunks_of sevenSongs (getMaxTrackCountToScrobble lastFm)))"
    unfolding m c by (simp add: settles_all_iff)
  have f: "chunk_failures exampleBackend lastFm 0 sevenSongs = []"
    by (simp add: chunk_failures_def exampleBackend_def lastFm_def)
  have "0 < getMaxTrackCountToScrobble lastFm"
    by (simp add: m)
  from batch_results [OF this all, of exampleBackend] show ?thesis
    unfolding m c by (simp add: f)
qed

lemma listenBrainz_batch_in_order:
  "BaseScrobbler_scrobbleBatch exampleBackend [0, 1, 2] listenBrainz sevenSongs
     = Some (Fulfilled [4])"
proof -
  have m: "getMaxTrackCountToScrobble listenBrainz = 3"
    by (simp add: listenBrainz_def)
  have all: "settles_all [0, 1, 2] (length (chunks_of sevenSongs (getMaxTrackCountToScrobble listenBrainz)))"
    unfolding m chunks_sevenSongs by (simp add: settles_all_iff less_Suc_eq)
  have "0 < getMaxTrackCountToScrobble listenBrainz"
    by (simp add: m)
  from batch_results [OF this all, of exampleBackend] show ?thesis
    unfolding m chunks_sevenSongs
    by (simp add: listenBrainz_chunk_failures)
qed

text \<open>
  Claim C2 at a batch of seven songs with Last.fm and ListenBrainz bound. The chunk
  of ListenBrainz that starts at song 3 is rejected with the local index 1, so
  ListenBrainz reports the failed index 4. The service's \<open>scrobbleBatch\<close> does not
  fail with an error that maps ListenBrainz to the index 4: it resolves, with the
  index arrays the two batch calls were fulfilled with.
\<close>

theorem scrobbleBatch_resolves_with_failures:
  "BaseScrobbler_scrobbleBatch exampleBackend [0, 1, 2] listenBrainz sevenSongs
     = Some (Fulfilled [4])
   \<and> fst (scrobbleBatch exampleBackend [0, 1] (\<lambda>s. [0, 1, 2]) sevenSongs
         (run_binding_ops [Bind lastFm, Bind listenBrainz] initial_service))
     = Some (Fulfilled [JsIndices [], JsIndices [4]])"
proof -
  let ?st = "run_binding_ops [Bind lastFm, Bind listenBrainz] initial_service"
  have b: "boundScrobblers ?st = [lastFm, listenBrainz]"
    by (simp add: run_binding_ops_def initial_service_def bound_bindScrobbler)
       (simp add: lastFm_def listenBrainz_def)
  have ps: "batch_promises exampleBackend (\<lambda>s. [0, 1, 2]) sevenSongs [lastFm, listenBrainz]
              = [Some (Fulfilled []), Some (Fulfilled [4])]"
    by (simp only: batch_promises_def list.map lastFm_batch_in_order listenBrainz_batch_in_order)
  have all: "settles_all [0, 1] (length [lastFm, listenBrainz])"
    by (simp add: settles_all_iff less_Suc_eq)
  have ret: "None \<notin> set (batch_promises exampleBackend (\<lambda>s. [0, 1, 2]) sevenSongs
                          [lastFm, listenBrainz])"
    unfolding ps by simp
  have "fst (scrobbleBatch_join exampleBackend [0, 1] (\<lambda>s. [0, 1, 2]) sevenSongs
               [lastFm, listenBrainz])
          = Some (Fulfilled [JsIndices [], JsIndices [4]])"
    using scrobbleBatch_join_fulfilled [OF all ret] unfolding ps by simp
  then have "fst (scrobbleBatch exampleBackend [0, 1] (\<lambda>s. [0, 1, 2]) sevenSongs ?st)
     = Some (Fulfilled [JsIndices [], JsIndices [4]])"
    unfolding scrobbleBatch_def Let_def b by simp
  with listenBrainz_batch_in_order show ?thesis
    by (rule conjI)
qed

end
